theory Spec2Isabelle
  imports Main "HOL-Library.Multiset"
begin

section \<open>Python values used by notes_app.py\<close>

text \<open>
  Strings are lists of characters; a character stands for a code point below 256.
  Text outside that range is not covered by this development.
\<close>

definition newline :: char where
  "newline = CHR 0x0A"

definition whitespace :: string where
  "whitespace = [CHR 0x09, CHR 0x0A, CHR 0x0B, CHR 0x0C, CHR 0x0D, CHR 0x1C, CHR 0x1D,
     CHR 0x1E, CHR 0x1F, CHR 0x20, CHR 0x85, CHR 0xA0]"

definition isspace :: "char \<Rightarrow> bool" where
  "isspace c = (c \<in> set whitespace)"

text \<open>\<^verbatim>\<open>str.strip()\<close>: leading and trailing white space removed.\<close>

definition strip :: "string \<Rightarrow> string" where
  "strip s = rev (dropWhile isspace (rev (dropWhile isspace s)))"

definition ascii_digits :: string where
  "ascii_digits = ''0123456789''"

definition is_ascii_digit :: "char \<Rightarrow> bool" where
  "is_ascii_digit c = (c \<in> set ascii_digits)"

text \<open>
  \<^verbatim>\<open>str.isdigit()\<close> also accepts the superscript digits of Latin-1, which
  \<^verbatim>\<open>int()\<close> rejects.
\<close>

definition isdigit_char :: "char \<Rightarrow> bool" where
  "isdigit_char c = (c \<in> set (ascii_digits @ [CHR 0xB2, CHR 0xB3, CHR 0xB9]))"

definition isdigit :: "string \<Rightarrow> bool" where
  "isdigit s = (s \<noteq> [] \<and> list_all isdigit_char s)"

text \<open>The value of a decimal digit: its place in \<open>ascii_digits\<close>.\<close>

definition digit_val :: "char \<Rightarrow> nat" where
  "digit_val c = length (takeWhile (\<lambda>d. d \<noteq> c) ascii_digits)"

text \<open>
  The digits of an \<^verbatim>\<open>int()\<close> literal: decimal digits, single underscores allowed
  between two digits.
\<close>

fun digits_ok :: "string \<Rightarrow> bool" where
  "digits_ok [] = False"
| "digits_ok [c] = is_ascii_digit c"
| "digits_ok (c # d # r) =
     (is_ascii_digit c \<and> (if d = CHR ''_'' then digits_ok r else digits_ok (d # r)))"

definition dec_value :: "string \<Rightarrow> nat" where
  "dec_value b = foldl (\<lambda>a c. 10 * a + digit_val c) 0 (filter (\<lambda>c. c \<noteq> CHR ''_'') b)"

text \<open>\<^verbatim>\<open>int(s)\<close> for a string: \<open>None\<close> stands for \<^verbatim>\<open>ValueError\<close>.\<close>

definition py_int :: "string \<Rightarrow> int option" where
  "py_int s =
     (let t = strip s;
          neg = (case t of [] \<Rightarrow> False | c # r \<Rightarrow> c = CHR ''-'');
          b = (case t of [] \<Rightarrow> []
               | c # r \<Rightarrow> if c = CHR ''-'' \<or> c = CHR ''+'' then r else t)
      in if digits_ok b
         then Some (if neg then - int (dec_value b) else int (dec_value b))
         else None)"

fun digits_of :: "nat \<Rightarrow> string" where
  "digits_of n =
     (if n < 10 then [ascii_digits ! n] else digits_of (n div 10) @ [ascii_digits ! (n mod 10)])"

text \<open>\<^verbatim>\<open>str(i)\<close> for an integer.\<close>

definition str_int :: "int \<Rightarrow> string" where
  "str_int i = (if i < 0 then CHR ''-'' # digits_of (nat (- i)) else digits_of (nat i))"

text \<open>
  A Python dictionary keeps its keys in insertion order; assigning to a present key
  keeps the key's place.
\<close>

fun dict_set :: "'k \<Rightarrow> 'v \<Rightarrow> ('k \<times> 'v) list \<Rightarrow> ('k \<times> 'v) list" where
  "dict_set k v [] = [(k, v)]"
| "dict_set k v ((k', v') # r) = (if k = k' then (k, v) # r else (k', v') # dict_set k v r)"

subsection \<open>JSON\<close>

text \<open>
  What \<^verbatim>\<open>json.loads\<close> returns. \<open>JPos l c\<close> is a string of the form
  \<^verbatim>\<open>l.c\<close>, which the text widget reads as the index of line \<open>l\<close> and column
  \<open>c\<close>; this is how the program writes the ends of a range. \<open>JStr s\<close> is any
  string that is not a text index. Numbers are integers. An object lists the items of
  the resulting dictionary in order, each key once.
\<close>

datatype json =
    JNull
  | JBool bool
  | JNum int
  | JStr string
  | JPos nat nat
  | JArr "json list"
  | JObj "(string \<times> json) list"

text \<open>
  The stored text of a JSON column, by what \<^verbatim>\<open>json.loads\<close> makes of it.
  \<open>Null\<close> is a column that is \<^verbatim>\<open>NULL\<close> or empty, which the program does not
  parse.
\<close>

datatype 'a column =
    Null
  | Malformed
  | Json 'a

section \<open>Pictures\<close>

text \<open>
  A picture is pixel data of a given width and height, or the result of
  \<^verbatim>\<open>img.resize((500, int(img.height * (500 / img.width))), Image.LANCZOS)\<close> on a
  picture. The new height is computed in floating point and is not evaluated here.
\<close>

datatype picture =
    Pixels nat nat string
  | Lanczos500 picture

fun pic_width :: "picture \<Rightarrow> nat" where
  "pic_width (Pixels w h d) = w"
| "pic_width (Lanczos500 p) = 500"

text \<open>
  A stored blob is base64 text. It is identified with the picture that decoding and
  opening it gives; \<open>Undecodable\<close> is a value for which that raises.
\<close>

datatype blob =
    Picture picture
  | Undecodable

text \<open>
  \<^verbatim>\<open>self.images_data\<close>: a dictionary from image id to blob, or, after loading a row
  whose images column holds JSON that is not an object, that other value (kept by its
  truth value).
\<close>

datatype images_val =
    ImgDict "(string \<times> blob) list"
  | ImgOther bool

fun truthy_images :: "images_val \<Rightarrow> bool" where
  "truthy_images (ImgDict kvs) = (kvs \<noteq> [])"
| "truthy_images (ImgOther b) = b"

fun truthy :: "json \<Rightarrow> bool" where
  "truthy JNull = False"
| "truthy (JBool b) = b"
| "truthy (JNum n) = (n \<noteq> 0)"
| "truthy (JStr s) = (s \<noteq> [])"
| "truthy (JPos l c) = True"
| "truthy (JArr xs) = (xs \<noteq> [])"
| "truthy (JObj kvs) = (kvs \<noteq> [])"

declare digits_of.simps [simp del]

section \<open>The text widget\<close>

text \<open>
  The program keeps the document in a \<^verbatim>\<open>tkinter.Text\<close> widget. The widget is
  modelled by the sequence of its index positions. Each position holds a character or
  an embedded image, and carries the set of tags on it. The last position is the line
  end that the widget always keeps; \<^verbatim>\<open>END\<close> is the index after it. An index is
  kept as the offset from \<^verbatim>\<open>1.0\<close>, counted in index positions. The widget names
  an index by line and column; the names matter where they are stored with a note and
  read in another text, see \<open>index_of\<close> and \<open>offset_of\<close> below.
\<close>

datatype elem =
    Ch char
  | Img string

type_synonym cell = "elem \<times> string set"

record widget =
  cells :: "cell list"
  insert_mark :: nat
  modified :: bool

definition new_widget :: widget where
  "new_widget = \<lparr>cells = [(Ch newline, {})], insert_mark = 0, modified = False\<rparr>"

fun elem_text :: "elem \<Rightarrow> string" where
  "elem_text (Ch c) = [c]"
| "elem_text (Img name) = []"

text \<open>\<^verbatim>\<open>get(index1, index2)\<close> returns characters only; embedded images are left out.\<close>

definition cells_text :: "cell list \<Rightarrow> string" where
  "cells_text cs = concat (map (\<lambda>c. elem_text (fst c)) cs)"

definition tk_get :: "widget \<Rightarrow> nat \<Rightarrow> nat \<Rightarrow> string" where
  "tk_get w a b = cells_text (take (b - a) (drop a (cells w)))"

definition end_index :: "widget \<Rightarrow> nat" where
  "end_index w = length (cells w)"

definition tags_at :: "cell list \<Rightarrow> nat \<Rightarrow> string set" where
  "tags_at cs i = (if i < length cs then snd (cs ! i) else {})"

text \<open>
  Text inserted without a tag list receives the tags present on both the position
  before and the position after the insertion point.
\<close>

definition inherited :: "cell list \<Rightarrow> nat \<Rightarrow> string set" where
  "inherited cs p = (if 0 < p \<and> p < length cs then snd (cs ! (p - 1)) \<inter> snd (cs ! p) else {})"

text \<open>
  Nothing is inserted after the last line end: an insertion at \<^verbatim>\<open>END\<close> goes before
  it. The insert mark has right gravity.
\<close>

definition insert_cells :: "widget \<Rightarrow> nat \<Rightarrow> elem list \<Rightarrow> widget" where
  "insert_cells w i es =
     (let cs = cells w;
          p = min i (length cs - 1);
          ts = inherited cs p
      in w\<lparr>cells := take p cs @ map (\<lambda>e. (e, ts)) es @ drop p cs,
            insert_mark := (if p \<le> insert_mark w then insert_mark w + length es
                            else insert_mark w),
            modified := (modified w \<or> es \<noteq> [])\<rparr>)"

definition tk_insert :: "widget \<Rightarrow> nat \<Rightarrow> string \<Rightarrow> widget" where
  "tk_insert w i s = insert_cells w i (map Ch s)"

definition tk_image_create :: "widget \<Rightarrow> nat \<Rightarrow> string \<Rightarrow> widget" where
  "tk_image_create w i name = insert_cells w i [Img name]"

definition remove_cells :: "widget \<Rightarrow> nat \<Rightarrow> nat \<Rightarrow> cell list \<Rightarrow> widget" where
  "remove_cells w a b cs =
     w\<lparr>cells := (if a < b then take a cs @ drop b cs else cs),
       insert_mark := (if a < b
                       then (if b \<le> insert_mark w then insert_mark w - (b - a)
                             else if a < insert_mark w then a else insert_mark w)
                       else insert_mark w),
       modified := True\<rparr>"

text \<open>
  \<^verbatim>\<open>delete(index1, index2)\<close>. The widget never gives up its last line end: when the
  range reaches \<^verbatim>\<open>END\<close>, the range stops before the last line end, it starts one
  position earlier when it starts at the beginning of a line other than the first, and
  the tags on the last line end are removed.
\<close>

definition tk_delete :: "widget \<Rightarrow> nat \<Rightarrow> nat \<Rightarrow> widget" where
  "tk_delete w a b =
     (let cs = cells w;
          n = length cs;
          a1 = min a n;
          b1 = min b n
      in if b1 \<le> a1 then w
         else if b1 = n
         then remove_cells w
                (if 0 < a1 \<and> fst (cs ! (a1 - 1)) = Ch newline then a1 - 1 else a1)
                (n - 1)
                (cs[n - 1 := (fst (cs ! (n - 1)), {})])
         else remove_cells w a1 b1 cs)"

text \<open>A function applied to the elements at the positions from \<open>a\<close> up to, not including, \<open>b\<close>.\<close>

definition upd_range :: "('a \<Rightarrow> 'a) \<Rightarrow> nat \<Rightarrow> nat \<Rightarrow> 'a list \<Rightarrow> 'a list" where
  "upd_range f a b xs =
     map (\<lambda>i. if a \<le> i \<and> i < b then f (xs ! i) else xs ! i) [0..<length xs]"

text \<open>
  \<^verbatim>\<open>tag_add(tag, index1, index2)\<close> and \<^verbatim>\<open>tag_remove(tag, index1, index2)\<close>; an empty
  range has no effect.
\<close>

definition tag_add :: "string \<Rightarrow> nat \<Rightarrow> nat \<Rightarrow> widget \<Rightarrow> widget" where
  "tag_add t a b w = w\<lparr>cells := upd_range (\<lambda>c. (fst c, insert t (snd c))) a b (cells w)\<rparr>"

definition tag_remove :: "string \<Rightarrow> nat \<Rightarrow> nat \<Rightarrow> widget \<Rightarrow> widget" where
  "tag_remove t a b w = w\<lparr>cells := upd_range (\<lambda>c. (fst c, snd c - {t})) a b (cells w)\<rparr>"

text \<open>
  \<^verbatim>\<open>tag_ranges(tag)\<close>: the maximal runs of positions that carry the tag, each as
  its first index and the index after its last.
\<close>

fun ranges_from :: "('a \<Rightarrow> bool) \<Rightarrow> nat \<Rightarrow> nat option \<Rightarrow> 'a list \<Rightarrow> (nat \<times> nat) list" where
  "ranges_from P i None [] = []"
| "ranges_from P i (Some a) [] = [(a, i)]"
| "ranges_from P i None (c # cs) =
     (if P c then ranges_from P (Suc i) (Some i) cs else ranges_from P (Suc i) None cs)"
| "ranges_from P i (Some a) (c # cs) =
     (if P c then ranges_from P (Suc i) (Some a) cs else (a, i) # ranges_from P (Suc i) None cs)"

definition tag_ranges :: "string \<Rightarrow> widget \<Rightarrow> (nat \<times> nat) list" where
  "tag_ranges t w = ranges_from (\<lambda>c. t \<in> snd c) 0 None (cells w)"

text \<open>
  The selection is the tag \<^verbatim>\<open>sel\<close>. \<^verbatim>\<open>index("sel.first")\<close> and
  \<^verbatim>\<open>index("sel.last")\<close> raise \<^verbatim>\<open>TclError\<close> (\<open>None\<close>) when nothing is selected.
\<close>

definition selection :: "widget \<Rightarrow> (nat \<times> nat) option" where
  "selection w =
     (case tag_ranges ''sel'' w of
        [] \<Rightarrow> None
      | r # rs \<Rightarrow> Some (fst r, snd (last (r # rs))))"

text \<open>
  \<^verbatim>\<open>search(pattern, index, END)\<close>: the first exact match at or after the index. The
  widget searches the characters of a line; an embedded image between two characters
  of a match is passed over, and a match begins at a character.
\<close>

fun matches_on :: "string \<Rightarrow> cell list \<Rightarrow> bool" where
  "matches_on [] cs = True"
| "matches_on (p # ps) [] = False"
| "matches_on (p # ps) (c # cs) =
     (case fst c of
        Ch x \<Rightarrow> x = p \<and> matches_on ps cs
      | Img name \<Rightarrow> matches_on (p # ps) cs)"

fun matches_at :: "string \<Rightarrow> cell list \<Rightarrow> bool" where
  "matches_at [] cs = True"
| "matches_at (p # ps) [] = False"
| "matches_at (p # ps) (c # cs) = (fst c = Ch p \<and> matches_on ps cs)"

fun search_from :: "string \<Rightarrow> nat \<Rightarrow> cell list \<Rightarrow> nat option" where
  "search_from pat i [] = None"
| "search_from pat i (c # cs) =
     (if matches_at pat (c # cs) then Some i else search_from pat (Suc i) cs)"

definition tk_search :: "string \<Rightarrow> nat \<Rightarrow> widget \<Rightarrow> nat option" where
  "tk_search pat start w = search_from pat start (drop start (cells w))"

text \<open>
  The name of an index, \<^verbatim>\<open>line.column\<close>: lines are counted from 1, columns from 0,
  and an embedded image takes one column. \<open>index_of\<close> is what \<^verbatim>\<open>str\<close> gives for an
  index returned by the widget.
\<close>

definition is_line_end :: "cell \<Rightarrow> bool" where
  "is_line_end c = (fst c = Ch newline)"

definition index_of :: "cell list \<Rightarrow> nat \<Rightarrow> nat \<times> nat" where
  "index_of cs i =
     (Suc (length (filter is_line_end (take i cs))),
      length (takeWhile (\<lambda>c. \<not> is_line_end c) (rev (take i cs))))"

text \<open>
  The index that the widget reads from \<^verbatim>\<open>line.column\<close>. A line number below 1
  gives \<^verbatim>\<open>1.0\<close>, a line after the last one gives \<^verbatim>\<open>END\<close>, and a column beyond
  the end of its line gives the line end.
\<close>

fun offset_from :: "cell list \<Rightarrow> nat \<Rightarrow> nat \<Rightarrow> nat \<Rightarrow> nat" where
  "offset_from [] l c i = i"
| "offset_from (x # xs) 0 c i =
     (if c = 0 \<or> is_line_end x then i else offset_from xs 0 (c - 1) (Suc i))"
| "offset_from (x # xs) (Suc l) c i =
     offset_from xs (if is_line_end x then l else Suc l) c (Suc i)"

definition offset_of :: "cell list \<Rightarrow> nat \<times> nat \<Rightarrow> nat" where
  "offset_of cs p = (if fst p = 0 then 0 else offset_from cs (fst p - 1) (snd p) 0)"

section \<open>The application state\<close>

text \<open>The settings dictionary and the single row of the settings table.\<close>

record prefs =
  theme :: string
  font_family :: string
  font_size :: int

text \<open>\<^verbatim>\<open>self.current_format\<close>: the toggle state of the toolbar.\<close>

record format =
  bold :: bool
  italic :: bool
  underline :: bool
  cur_size :: int
  cur_family :: string

text \<open>
  A row of the notes table. \<open>updated_at\<close> is the time stamp written by the program,
  as a count of clock ticks; \<open>created_at\<close> is filled in by the database and never read.
\<close>

record note_row =
  note_id :: int
  title :: string
  content :: string
  updated_at :: nat
  images :: "images_val column"
  formatting :: "json column"

text \<open>
  The fields of \<^verbatim>\<open>NotesApp\<close> that the document core reads and writes, together
  with the database file (both tables) and what the user is shown: the status bar and
  the lines printed by the exception handlers. \<open>text_font_named\<close> tells whether the
  \<^verbatim>\<open>font\<close> option of the text widget holds the name of a named font; the widget
  is created with a (family, size) pair, which is not one. The keys of
  \<^verbatim>\<open>self.tab_references\<close> are the ids listed in \<^verbatim>\<open>self.open_notes\<close>.
\<close>

record app =
  text_area :: widget
  text_font_named :: bool
  current_note_id :: "int option"
  images_data :: images_val
  image_counter :: int
  formatting_data :: json
  open_notes :: "(int option \<times> string) list"
  active_tab :: "int option"
  current_format :: format
  settings :: prefs
  notes_table :: "note_row list"
  settings_table :: prefs
  font_families :: "string list"
  status :: string
  console :: "string list"

definition default_format :: "app \<Rightarrow> format" where
  "default_format s =
     \<lparr>bold = False, italic = False, underline = False,
      cur_size = font_size (settings s), cur_family = font_family (settings s)\<rparr>"

definition animate_status_bar :: "string \<Rightarrow> app \<Rightarrow> app" where
  "animate_status_bar msg s = s\<lparr>status := msg\<rparr>"

definition print_error :: "string \<Rightarrow> app \<Rightarrow> app" where
  "print_error msg s = s\<lparr>console := console s @ [msg]\<rparr>"

text \<open>The state after \<^verbatim>\<open>NotesApp.__init__\<close>, for a database file and a list of fonts.\<close>

definition init_app :: "note_row list \<Rightarrow> prefs \<Rightarrow> string list \<Rightarrow> app" where
  "init_app rows p fams =
     \<lparr>text_area = new_widget, text_font_named = False, current_note_id = None,
      images_data = ImgDict [], image_counter = 0, formatting_data = JObj [],
      open_notes = [], active_tab = None,
      current_format = \<lparr>bold = False, italic = False, underline = False,
                          cur_size = font_size p, cur_family = font_family p\<rparr>,
      settings = p, notes_table = rows, settings_table = p, font_families = fams,
      status = [], console = []\<rparr>"

section \<open>Typing-mode formatting\<close>

definition size_tag :: "int \<Rightarrow> string" where
  "size_tag n = ''size_'' @ str_int n"

definition family_tag :: "string \<Rightarrow> string" where
  "family_tag f = ''family_'' @ f"

definition apply_current_formatting :: "app \<Rightarrow> nat \<Rightarrow> nat \<Rightarrow> app" where
  "apply_current_formatting s start_pos end_pos =
     (let f = current_format s;
          w0 = text_area s;
          w1 = (if bold f then tag_add ''bold'' start_pos end_pos w0 else w0);
          w2 = (if italic f then tag_add ''italic'' start_pos end_pos w1 else w1);
          w3 = (if underline f then tag_add ''underline'' start_pos end_pos w2 else w2);
          w4 = (if cur_size f \<noteq> font_size (settings s)
                then tag_add (size_tag (cur_size f)) start_pos end_pos w3 else w3);
          w5 = (if cur_family f \<noteq> font_family (settings s)
                then tag_add (family_tag (cur_family f)) start_pos end_pos w4 else w4)
      in s\<lparr>text_area := w5\<rparr>)"

text \<open>
  The handler of the widget's \<^verbatim>\<open><<Modified>>\<close> event. The event is queued when the
  modified flag is raised, so the handler runs once the callback that changed the text
  has returned.
\<close>

definition on_text_modified :: "app \<Rightarrow> app" where
  "on_text_modified s =
     (if \<not> modified (text_area s) then s
      else
        let s1 = s\<lparr>text_area := (text_area s)\<lparr>modified := False\<rparr>\<rparr>;
            insert_pos = insert_mark (text_area s1);
            start_pos = insert_pos - 1
        in if start_pos < insert_pos then apply_current_formatting s1 start_pos insert_pos
           else s1)"

text \<open>
  The range the toggles act on: the selection, or else the position at the insert mark
  (\<^verbatim>\<open>"insert"\<close> to \<^verbatim>\<open>"insert + 1c"\<close>).
\<close>

definition toggle_range :: "widget \<Rightarrow> nat \<times> nat" where
  "toggle_range w =
     (case selection w of
        Some r \<Rightarrow> r
      | None \<Rightarrow> (insert_mark w, min (insert_mark w + 1) (end_index w)))"

definition toggle_bold :: "app \<Rightarrow> app" where
  "toggle_bold s =
     (let f = (current_format s)\<lparr>bold := \<not> bold (current_format s)\<rparr>;
          r = toggle_range (text_area s)
      in s\<lparr>current_format := f,
            text_area := (if bold f then tag_add ''bold'' (fst r) (snd r) (text_area s)
                          else tag_remove ''bold'' (fst r) (snd r) (text_area s))\<rparr>)"

definition toggle_italic :: "app \<Rightarrow> app" where
  "toggle_italic s =
     (let f = (current_format s)\<lparr>italic := \<not> italic (current_format s)\<rparr>;
          r = toggle_range (text_area s)
      in s\<lparr>current_format := f,
            text_area := (if italic f then tag_add ''italic'' (fst r) (snd r) (text_area s)
                          else tag_remove ''italic'' (fst r) (snd r) (text_area s))\<rparr>)"

definition toggle_underline :: "app \<Rightarrow> app" where
  "toggle_underline s =
     (let f = (current_format s)\<lparr>underline := \<not> underline (current_format s)\<rparr>;
          r = toggle_range (text_area s)
      in s\<lparr>current_format := f,
            text_area := (if underline f
                          then tag_add ''underline'' (fst r) (snd r) (text_area s)
                          else tag_remove ''underline'' (fst r) (snd r) (text_area s))\<rparr>)"

definition size_list :: "int list" where
  "size_list = [8, 10, 12, 14, 16, 18, 20, 24]"

text \<open>
  \<^verbatim>\<open>change_font_size\<close>; the argument is the text of the size box. Without a selection
  the handler of \<^verbatim>\<open>TclError\<close> first calls
  \<^verbatim>\<open>font.nametofont(self.text_area["font"])\<close>, which raises \<^verbatim>\<open>TclError\<close> itself
  unless the option holds the name of a named font; the outer handler then prints the
  error and the function returns.
\<close>

definition change_font_size :: "app \<Rightarrow> string \<Rightarrow> app" where
  "change_font_size s box =
     (case py_int box of
        None \<Rightarrow> animate_status_bar ''Please enter a valid number for font size'' s
      | Some n \<Rightarrow>
          let s1 = s\<lparr>current_format := (current_format s)\<lparr>cur_size := n\<rparr>\<rparr> in
          (case selection (text_area s1) of
             None \<Rightarrow>
               if text_font_named s1
               then animate_status_bar (''Default font size changed to '' @ str_int n)
                      (s1\<lparr>text_font_named := True,
                          settings := (settings s1)\<lparr>font_size := n\<rparr>,
                          settings_table := (settings s1)\<lparr>font_size := n\<rparr>\<rparr>)
               else print_error ''Error in change_font_size'' s1
           | Some r \<Rightarrow>
               let w1 = fold (\<lambda>sz w. tag_remove (size_tag sz) (fst r) (snd r) w) size_list
                          (text_area s1);
                   w2 = tag_add (size_tag n) (fst r) (snd r) w1
               in animate_status_bar (''Font size changed to '' @ str_int n)
                    (s1\<lparr>text_area := w2\<rparr>)))"

text \<open>
  \<^verbatim>\<open>change_font_family\<close>. With a selection, the family tags found at the start of
  the selection are removed over the selection before the new one is added.
\<close>

definition is_family_tag :: "string \<Rightarrow> bool" where
  "is_family_tag t = (take 7 t = ''family_'')"

definition remove_tags_where ::
  "(string \<Rightarrow> bool) \<Rightarrow> string set \<Rightarrow> nat \<Rightarrow> nat \<Rightarrow> widget \<Rightarrow> widget" where
  "remove_tags_where P ts a b w =
     w\<lparr>cells := upd_range (\<lambda>c. (fst c, snd c - {t \<in> ts. P t})) a b (cells w)\<rparr>"

definition change_font_family :: "app \<Rightarrow> string \<Rightarrow> app" where
  "change_font_family s fam =
     (let s1 = s\<lparr>current_format := (current_format s)\<lparr>cur_family := fam\<rparr>\<rparr> in
      case selection (text_area s1) of
        None \<Rightarrow>
          if text_font_named s1
          then animate_status_bar (''Default font changed to '' @ fam)
                 (s1\<lparr>text_font_named := True,
                     settings := (settings s1)\<lparr>font_family := fam\<rparr>,
                     settings_table := (settings s1)\<lparr>font_family := fam\<rparr>\<rparr>)
          else print_error ''Error in change_font_family'' s1
      | Some r \<Rightarrow>
          let w0 = text_area s1;
              w1 = remove_tags_where is_family_tag (tags_at (cells w0) (fst r))
                     (fst r) (snd r) w0;
              w2 = tag_add (family_tag fam) (fst r) (snd r) w1
          in animate_status_bar (''Font changed to '' @ fam) (s1\<lparr>text_area := w2\<rparr>))"

section \<open>Images\<close>

definition marker :: "string \<Rightarrow> string" where
  "marker img_id = ''[IMAGE:'' @ img_id @ '']''"

text \<open>What the file dialog and \<^verbatim>\<open>Image.open\<close> yield.\<close>

datatype chosen_file =
    NoFile
  | NotAPicture
  | PictureFile picture

text \<open>What \<^verbatim>\<open>ImageGrab.grabclipboard()\<close> and \<^verbatim>\<open>clipboard_get()\<close> yield.\<close>

datatype clipboard =
    ClipImage picture
  | ClipText string
  | ClipNothing

text \<open>
  \<^verbatim>\<open>self.images_data[img_id] = img_data\<close>; \<open>None\<close> stands for the
  \<^verbatim>\<open>TypeError\<close> raised when the value is not a dictionary.
\<close>

fun store_image :: "string \<Rightarrow> blob \<Rightarrow> images_val \<Rightarrow> images_val option" where
  "store_image k v (ImgDict kvs) = Some (ImgDict (dict_set k v kvs))"
| "store_image k v (ImgOther b) = None"

text \<open>
  \<^verbatim>\<open>insert_image\<close>. The blob stored is the base64 text of the bytes of the chosen
  file; the resized copy is only displayed.
\<close>

definition insert_image :: "app \<Rightarrow> chosen_file \<Rightarrow> app" where
  "insert_image s file =
     (case file of
        NoFile \<Rightarrow> s
      | NotAPicture \<Rightarrow> print_error ''Error inserting image'' s
      | PictureFile img \<Rightarrow>
          let img_id = str_int (image_counter s);
              s1 = s\<lparr>image_counter := image_counter s + 1\<rparr>;
              current_position = insert_mark (text_area s1);
              s2 = s1\<lparr>text_area := tk_image_create (text_area s1) current_position img_id\<rparr>
          in (case store_image img_id (Picture img) (images_data s2) of
                None \<Rightarrow> print_error ''Error inserting image'' s2
              | Some d \<Rightarrow>
                  let s3 = s2\<lparr>images_data := d\<rparr>;
                      w1 = tk_insert (text_area s3) current_position (marker img_id);
                      w2 = tk_delete w1 current_position
                             (current_position + length (marker img_id))
                  in animate_status_bar ''Image inserted successfully''
                       (s3\<lparr>text_area := w2\<rparr>)))"

text \<open>
  \<^verbatim>\<open>paste_from_clipboard\<close>. The blob stored is the base64 text of the PNG encoding of
  the picture after resizing.
\<close>

definition paste_from_clipboard :: "app \<Rightarrow> clipboard \<Rightarrow> app" where
  "paste_from_clipboard s clip =
     (case clip of
        ClipImage img0 \<Rightarrow>
          let img = (if 500 < pic_width img0 then Lanczos500 img0 else img0);
              current_position = insert_mark (text_area s);
              img_id = str_int (image_counter s);
              s1 = s\<lparr>image_counter := image_counter s + 1\<rparr>;
              w1 = tk_image_create (text_area s1) current_position img_id;
              w2 = tk_insert w1 current_position (marker img_id);
              w3 = tk_delete w2 current_position
                     (current_position + length (marker img_id));
              s2 = s1\<lparr>text_area := w3\<rparr>
          in (case store_image img_id (Picture img) (images_data s2) of
                None \<Rightarrow> print_error ''Paste error'' s2
              | Some d \<Rightarrow>
                  animate_status_bar ''Image pasted from clipboard'' (s2\<lparr>images_data := d\<rparr>))
      | ClipText t \<Rightarrow>
          s\<lparr>text_area := tk_insert (text_area s) (insert_mark (text_area s)) t\<rparr>
      | ClipNothing \<Rightarrow> print_error ''Paste error'' s)"

section \<open>The note store\<close>

text \<open>
  A database connection keeps the row id of its own last insert;
  \<^verbatim>\<open>last_insert_rowid()\<close> is 0 on a connection that has inserted nothing.
\<close>

record connection =
  last_insert_rowid :: int

definition sqlite3_connect :: connection where
  "sqlite3_connect = \<lparr>last_insert_rowid = 0\<rparr>"

text \<open>The id given to a new row: one more than the largest id in the table.\<close>

definition next_rowid :: "note_row list \<Rightarrow> int" where
  "next_rowid rows = (if rows = [] then 1 else Max (set (map note_id rows)) + 1)"

definition insert_note ::
  "connection \<Rightarrow> note_row list \<Rightarrow> string \<Rightarrow> string \<Rightarrow> nat \<Rightarrow> images_val column \<Rightarrow>
   json column \<Rightarrow> connection \<times> note_row list" where
  "insert_note conn rows t c now imgs fmt =
     (conn\<lparr>last_insert_rowid := next_rowid rows\<rparr>,
      rows @ [\<lparr>note_id = next_rowid rows, title = t, content = c, updated_at = now,
               images = imgs, formatting = fmt\<rparr>])"

definition images_str :: "images_val \<Rightarrow> images_val column" where
  "images_str d = Json (if truthy_images d then d else ImgDict [])"

definition formatting_str :: "json \<Rightarrow> json column" where
  "formatting_str d = Json (if truthy d then d else JObj [])"

text \<open>
  \<^verbatim>\<open>save_note_to_db\<close> opens a connection of its own, inserts, commits and closes it;
  \<open>now\<close> is \<^verbatim>\<open>datetime.now()\<close>.
\<close>

definition save_note_to_db ::
  "note_row list \<Rightarrow> string \<Rightarrow> string \<Rightarrow> images_val \<Rightarrow> json \<Rightarrow> nat \<Rightarrow> note_row list" where
  "save_note_to_db rows t c imgs fmt now =
     snd (insert_note sqlite3_connect rows t c now (images_str imgs) (formatting_str fmt))"

definition update_note_in_db ::
  "note_row list \<Rightarrow> int \<Rightarrow> string \<Rightarrow> string \<Rightarrow> images_val \<Rightarrow> json \<Rightarrow> nat \<Rightarrow> note_row list" where
  "update_note_in_db rows nid t c imgs fmt now =
     map (\<lambda>r. if note_id r = nid
               then r\<lparr>title := t, content := c, updated_at := now,
                      images := images_str imgs, formatting := formatting_str fmt\<rparr>
               else r) rows"

text \<open>\<^verbatim>\<open>ORDER BY updated_at DESC\<close>.\<close>

definition order_by_updated_desc :: "note_row list \<Rightarrow> note_row list" where
  "order_by_updated_desc rows = rev (sort_key updated_at rows)"

definition get_notes_from_db :: "note_row list \<Rightarrow> (int \<times> string) list" where
  "get_notes_from_db rows = map (\<lambda>r. (note_id r, title r)) (order_by_updated_desc rows)"

definition get_recent_notes_from_db :: "note_row list \<Rightarrow> nat \<Rightarrow> (int \<times> string \<times> nat) list" where
  "get_recent_notes_from_db rows limit =
     take limit (map (\<lambda>r. (note_id r, title r, updated_at r)) (order_by_updated_desc rows))"

definition get_note_content :: "note_row list \<Rightarrow> int option \<Rightarrow> note_row option" where
  "get_note_content rows nid =
     (case nid of None \<Rightarrow> None | Some i \<Rightarrow> find (\<lambda>r. note_id r = i) rows)"

definition delete_note_from_db :: "note_row list \<Rightarrow> int \<Rightarrow> note_row list" where
  "delete_note_from_db rows nid = filter (\<lambda>r. note_id r \<noteq> nid) rows"

section \<open>Saving the formatting\<close>

text \<open>\<^verbatim>\<open>str(index)\<close> for an index of the widget.\<close>

definition index_json :: "widget \<Rightarrow> nat \<Rightarrow> json" where
  "index_json w i = JPos (fst (index_of (cells w) i)) (snd (index_of (cells w) i))"

definition ranges_json :: "string \<Rightarrow> widget \<Rightarrow> json list" where
  "ranges_json t w =
     map (\<lambda>r. JArr [index_json w (fst r), index_json w (snd r)]) (tag_ranges t w)"

definition size_entries :: "widget \<Rightarrow> (string \<times> json) list" where
  "size_entries w =
     concat (map (\<lambda>n. if ranges_json (size_tag n) w = [] then []
                       else [(str_int n, JArr (ranges_json (size_tag n) w))]) size_list)"

text \<open>One round of the loop over \<^verbatim>\<open>font.families()\<close>; a family listed twice has its
  ranges appended twice.\<close>

definition add_family :: "widget \<Rightarrow> (string \<times> json) list \<Rightarrow> string \<Rightarrow> (string \<times> json) list" where
  "add_family w d fam =
     (if ranges_json (family_tag fam) w = [] then d
      else (case map_of d fam of
              Some (JArr old) \<Rightarrow> dict_set fam (JArr (old @ ranges_json (family_tag fam) w)) d
            | _ \<Rightarrow> dict_set fam (JArr (ranges_json (family_tag fam) w)) d))"

definition family_entries :: "string list \<Rightarrow> widget \<Rightarrow> (string \<times> json) list" where
  "family_entries fams w = foldl (add_family w) [] fams"

definition save_formatting_data :: "app \<Rightarrow> app" where
  "save_formatting_data s =
     s\<lparr>formatting_data :=
         JObj [(''bold'', JArr (ranges_json ''bold'' (text_area s))),
               (''italic'', JArr (ranges_json ''italic'' (text_area s))),
               (''underline'', JArr (ranges_json ''underline'' (text_area s))),
               (''font_size'', JObj (size_entries (text_area s))),
               (''font_family'', JObj (family_entries (font_families s) (text_area s)))]\<rparr>"

section \<open>Opening a note\<close>

lemma search_from_bound:
  "search_from pat i cs = Some j \<Longrightarrow>
     i \<le> j \<and> j < i + length cs \<and> j - i + length pat \<le> length cs"
proof (induction cs arbitrary: i)
  case Nil
  then show ?case by simp
next
  case (Cons c cs)
  have n: "matches_on p xs \<Longrightarrow> length p \<le> length xs" for p xs
    by (induction p xs rule: matches_on.induct) (auto split: elem.splits)
  have m: "matches_at p xs \<Longrightarrow> length p \<le> length xs" for p xs
  proof (cases p)
    case Nil
    then show ?thesis by simp
  next
    case (Cons a ps)
    assume "matches_at p xs"
    with Cons n [of ps "tl xs"] show ?thesis by (cases xs) auto
  qed
  show ?case
  proof (cases "matches_at pat (c # cs)")
    case True
    with Cons.prems m [of pat "c # cs"] show ?thesis by simp
  next
    case False
    with Cons.prems have "search_from pat (Suc i) cs = Some j" by simp
    from Cons.IH [OF this] show ?thesis by auto
  qed
qed

lemma tk_search_bound:
  "tk_search pat start w = Some j \<Longrightarrow> j + length pat \<le> length (cells w)"
proof -
  assume "tk_search pat start w = Some j"
  then have "start \<le> j \<and> j < start + length (drop start (cells w)) \<and>
      j - start + length pat \<le> length (drop start (cells w))"
    unfolding tk_search_def by (rule search_from_bound)
  then show ?thesis by auto
qed

lemma tk_delete_length:
  "length (cells (tk_delete w a b)) \<le> Suc (length (cells w) - (min b (length (cells w)) - a))"
  by (auto simp: tk_delete_def remove_cells_def Let_def min_def)

lemma tk_image_create_length:
  "length (cells (tk_image_create w i name)) = Suc (length (cells w))"
  by (simp add: tk_image_create_def insert_cells_def Let_def)

text \<open>
  The loop that replaces the markers of one image: each marker found is deleted and the
  picture is put in its place; the search goes on from the old end index. The flag
  tells whether decoding the blob raised, which leaves the loop after the deletion.
\<close>

function place_image :: "string \<Rightarrow> blob \<Rightarrow> nat \<Rightarrow> widget \<Rightarrow> widget \<times> bool" where
  "place_image img_id b start_idx w =
     (case tk_search (marker img_id) start_idx w of
        None \<Rightarrow> (w, False)
      | Some i \<Rightarrow>
          (case b of
             Undecodable \<Rightarrow> (tk_delete w i (i + length (marker img_id)), True)
           | Picture p \<Rightarrow>
               place_image img_id b (i + length (marker img_id))
                 (tk_image_create (tk_delete w i (i + length (marker img_id))) i img_id)))"
  by pat_completeness auto
termination
proof (relation "measure (\<lambda>(img_id, b, start_idx, w). length (cells w))", goal_cases)
  case 1
  show ?case by simp
next
  case (2 img_id b start_idx w i p)
  from 2(1) have le: "i + length (marker img_id) \<le> length (cells w)"
    by (rule tk_search_bound)
  have "8 \<le> length (marker img_id)" by (simp add: marker_def)
  with le tk_delete_length [of w i "i + length (marker img_id)"] show ?case
    by (simp add: tk_image_create_length min_def)
qed

declare place_image.simps [simp del]

fun place_images :: "(string \<times> blob) list \<Rightarrow> widget \<Rightarrow> string list \<Rightarrow> widget \<times> string list" where
  "place_images [] w out = (w, out)"
| "place_images ((img_id, b) # kvs) w out =
     (case place_image img_id b 0 w of
        (w', raised) \<Rightarrow>
          place_images kvs w' (if raised then out @ [''Error displaying image''] else out))"

text \<open>
  \<^verbatim>\<open>[int(k) for k in self.images_data.keys() if k.isdigit()]\<close>; \<open>None\<close> when an
  \<^verbatim>\<open>int(k)\<close> raises.
\<close>

fun all_some :: "'a option list \<Rightarrow> 'a list option" where
  "all_some [] = Some []"
| "all_some (None # xs) = None"
| "all_some (Some x # xs) = (case all_some xs of None \<Rightarrow> None | Some ys \<Rightarrow> Some (x # ys))"

definition key_numbers :: "(string \<times> blob) list \<Rightarrow> int list option" where
  "key_numbers kvs = all_some (map py_int (filter isdigit (map fst kvs)))"

text \<open>\<^verbatim>\<open>max(xs, default=d)\<close>.\<close>

definition max_default :: "int list \<Rightarrow> int \<Rightarrow> int" where
  "max_default xs d = (if xs = [] then d else Max (set xs))"

definition load_images :: "app \<Rightarrow> images_val column \<Rightarrow> app" where
  "load_images s col =
     (let s0 = s\<lparr>images_data := ImgDict [], image_counter := 0\<rparr> in
      case col of
        Null \<Rightarrow> s0
      | Malformed \<Rightarrow> print_error ''Error parsing images data'' s0
      | Json (ImgOther b) \<Rightarrow>
          print_error ''Error parsing images data'' (s0\<lparr>images_data := ImgOther b\<rparr>)
      | Json (ImgDict kvs) \<Rightarrow>
          if kvs = [] then s0
          else
            (case place_images kvs (text_area s0) (console s0) of
               (w, out) \<Rightarrow>
                 let s1 = s0\<lparr>images_data := ImgDict kvs, text_area := w, console := out\<rparr> in
                 (case key_numbers kvs of
                    None \<Rightarrow> print_error ''Error parsing images data'' s1
                  | Some ns \<Rightarrow> s1\<lparr>image_counter := max_default ns 0 + 1\<rparr>)))"

text \<open>
  Applying the stored formatting. A step that raises leaves the loop; what was applied
  before stays applied.
\<close>

datatype 'a outcome =
    Done 'a
  | Raised 'a

fun then_do :: "'a outcome \<Rightarrow> ('a \<Rightarrow> 'a outcome) \<Rightarrow> 'a outcome" where
  "then_do (Done x) f = f x"
| "then_do (Raised x) f = Raised x"

fun result :: "'a outcome \<Rightarrow> 'a" where
  "result (Done x) = x"
| "result (Raised x) = x"

text \<open>\<^verbatim>\<open>d.get(key, default)\<close>; \<open>None\<close> when the value has no \<^verbatim>\<open>get\<close>.\<close>

fun json_get :: "json \<Rightarrow> string \<Rightarrow> json \<Rightarrow> json option" where
  "json_get (JObj kvs) k d = Some (case map_of kvs k of None \<Rightarrow> d | Some v \<Rightarrow> v)"
| "json_get j k d = None"

text \<open>
  \<^verbatim>\<open>start, end = item\<close>: the item must have exactly two elements. A string of a
  single character is no text index, and the keys of a dictionary are taken not to be
  text indices either.
\<close>

fun unpack2 :: "json \<Rightarrow> (json \<times> json) option" where
  "unpack2 (JArr [a, b]) = Some (a, b)"
| "unpack2 (JStr [c, d]) = Some (JStr [c], JStr [d])"
| "unpack2 (JObj [(k, v), (l, u)]) = Some (JStr k, JStr l)"
| "unpack2 j = None"

text \<open>
  The index that \<^verbatim>\<open>tag_add\<close> reads from a value; \<open>None\<close> stands for the
  \<^verbatim>\<open>TclError\<close> raised for a value that is not a text index.
\<close>

fun tk_pos :: "widget \<Rightarrow> json \<Rightarrow> nat option" where
  "tk_pos w (JPos l c) = Some (offset_of (cells w) (l, c))"
| "tk_pos w j = None"

fun apply_items :: "string \<Rightarrow> json list \<Rightarrow> widget \<Rightarrow> widget outcome" where
  "apply_items tag [] w = Done w"
| "apply_items tag (x # xs) w =
     (case unpack2 x of
        None \<Rightarrow> Raised w
      | Some (a, b) \<Rightarrow>
          (case (tk_pos w a, tk_pos w b) of
             (Some i, Some j) \<Rightarrow> apply_items tag xs (tag_add tag i j w)
           | _ \<Rightarrow> Raised w))"

text \<open>
  \<^verbatim>\<open>for start, end in value\<close>: a list gives its elements, a dictionary its keys, a
  string its characters (those of a text index never make a pair); anything else is
  not iterable.
\<close>

fun apply_ranges :: "string \<Rightarrow> json \<Rightarrow> widget \<Rightarrow> widget outcome" where
  "apply_ranges tag (JArr xs) w = apply_items tag xs w"
| "apply_ranges tag (JObj kvs) w = apply_items tag (map (\<lambda>kv. JStr (fst kv)) kvs) w"
| "apply_ranges tag (JStr s) w = apply_items tag (map (\<lambda>c. JStr [c]) s) w"
| "apply_ranges tag j w = Raised w"

definition apply_key :: "string \<Rightarrow> json \<Rightarrow> widget \<Rightarrow> widget outcome" where
  "apply_key tag j w =
     (case json_get j tag (JArr []) of None \<Rightarrow> Raised w | Some v \<Rightarrow> apply_ranges tag v w)"

fun apply_sizes :: "(string \<times> json) list \<Rightarrow> widget \<Rightarrow> widget outcome" where
  "apply_sizes [] w = Done w"
| "apply_sizes ((sz, ranges) # r) w =
     (case py_int sz of
        None \<Rightarrow> Raised w
      | Some n \<Rightarrow> then_do (apply_ranges (''size_'' @ sz) ranges w) (apply_sizes r))"

fun apply_families :: "(string \<times> json) list \<Rightarrow> widget \<Rightarrow> widget outcome" where
  "apply_families [] w = Done w"
| "apply_families ((family, ranges) # r) w =
     then_do (apply_ranges (family_tag family) ranges w) (apply_families r)"

text \<open>\<^verbatim>\<open>d.get(key, {}).items()\<close>: only a dictionary has items.\<close>

definition apply_dict ::
  "string \<Rightarrow> ((string \<times> json) list \<Rightarrow> widget \<Rightarrow> widget outcome) \<Rightarrow> json \<Rightarrow> widget \<Rightarrow>
   widget outcome" where
  "apply_dict key f j w =
     (case json_get j key (JObj []) of Some (JObj kvs) \<Rightarrow> f kvs w | _ \<Rightarrow> Raised w)"

definition apply_formatting :: "json \<Rightarrow> widget \<Rightarrow> widget outcome" where
  "apply_formatting j w =
     then_do (apply_key ''bold'' j w) (\<lambda>w.
     then_do (apply_key ''italic'' j w) (\<lambda>w.
     then_do (apply_key ''underline'' j w) (\<lambda>w.
     then_do (apply_dict ''font_size'' apply_sizes j w) (\<lambda>w.
     apply_dict ''font_family'' apply_families j w))))"

definition load_formatting :: "app \<Rightarrow> json column \<Rightarrow> app" where
  "load_formatting s col =
     (let s0 = s\<lparr>formatting_data := JObj []\<rparr> in
      case col of
        Null \<Rightarrow> s0
      | Malformed \<Rightarrow> print_error ''Error applying formatting'' s0
      | Json j \<Rightarrow>
          if j = JObj [] then s0
          else
            (case apply_formatting j (text_area s0) of
               Done w \<Rightarrow> s0\<lparr>formatting_data := j, text_area := w\<rparr>
             | Raised w \<Rightarrow>
                 print_error ''Error applying formatting''
                   (s0\<lparr>formatting_data := j, text_area := w\<rparr>)))"

definition open_note_by_id :: "app \<Rightarrow> int option \<Rightarrow> app" where
  "open_note_by_id s nid =
     (let s1 = s\<lparr>current_note_id := nid\<rparr> in
      case get_note_content (notes_table s1) nid of
        None \<Rightarrow> s1
      | Some note_content \<Rightarrow>
          let w1 = tk_delete (text_area s1) 0 (end_index (text_area s1));
              w2 = tk_insert w1 0 (content note_content);
              s2 = s1\<lparr>text_area := w2, current_format := default_format s1\<rparr>;
              s3 = load_images s2 (images note_content);
              s4 = load_formatting s3 (formatting note_content)
          in animate_status_bar (''Opened note: '' @ title note_content) s4)"

section \<open>Tabs\<close>

definition has_tab :: "app \<Rightarrow> int option \<Rightarrow> bool" where
  "has_tab s nid = (nid \<in> set (map fst (open_notes s)))"

definition activate_tab :: "app \<Rightarrow> int option \<Rightarrow> app" where
  "activate_tab s nid =
     (if has_tab s nid then open_note_by_id (s\<lparr>active_tab := nid\<rparr>) nid else s)"

definition add_tab :: "app \<Rightarrow> int option \<Rightarrow> string \<Rightarrow> app" where
  "add_tab s nid t =
     (if has_tab s nid then activate_tab s nid
      else activate_tab (s\<lparr>open_notes := open_notes s @ [(nid, t)]\<rparr>) nid)"

text \<open>The editor emptied, as \<^verbatim>\<open>close_tab\<close> does when no tab is left.\<close>

definition clear_editor :: "app \<Rightarrow> app" where
  "clear_editor s =
     s\<lparr>current_note_id := None,
       text_area := tk_delete (text_area s) 0 (end_index (text_area s)),
       images_data := ImgDict [], image_counter := 0, formatting_data := JObj []\<rparr>"

definition close_tab :: "app \<Rightarrow> int option \<Rightarrow> app" where
  "close_tab s nid =
     (let s1 = s\<lparr>open_notes := filter (\<lambda>tab. fst tab \<noteq> nid) (open_notes s)\<rparr> in
      if active_tab s1 = nid
      then
        (let s2 = s1\<lparr>active_tab := None\<rparr> in
         if open_notes s2 \<noteq> [] then activate_tab s2 (fst (hd (open_notes s2)))
         else (clear_editor s2)\<lparr>current_format := default_format s2\<rparr>)
      else s1)"

definition open_note_in_tab :: "app \<Rightarrow> int \<Rightarrow> string \<Rightarrow> app" where
  "open_note_in_tab s nid t = add_tab s (Some nid) t"

definition new_note :: "app \<Rightarrow> app" where
  "new_note s =
     add_tab
       (animate_status_bar ''New note created''
          ((clear_editor s)\<lparr>current_format := default_format s\<rparr>))
       None ''Untitled''"

section \<open>Saving and deleting a note\<close>

definition quoted :: "string \<Rightarrow> string" where
  "quoted t = [CHR 0x27] @ t @ [CHR 0x27]"

text \<open>
  \<^verbatim>\<open>save_note\<close>. \<open>answer\<close> is what the title dialog returns (\<open>None\<close> when it is
  cancelled) and \<open>now\<close> the clock. After the first save the new id is read with
  \<^verbatim>\<open>SELECT last_insert_rowid()\<close> on a connection opened for that query.
\<close>

definition save_note :: "app \<Rightarrow> string option \<Rightarrow> nat \<Rightarrow> app" where
  "save_note s answer now =
     (let note_text = tk_get (text_area s) 0 (end_index (text_area s)) in
      if strip note_text = [] then animate_status_bar ''Error: Note must have content'' s
      else
        (case answer of
           None \<Rightarrow> animate_status_bar ''Error: Note must have a title'' s
         | Some t \<Rightarrow>
             if t = [] then animate_status_bar ''Error: Note must have a title'' s
             else
               let s1 = save_formatting_data s in
               (case current_note_id s1 of
                  None \<Rightarrow>
                    let rows = save_note_to_db (notes_table s1) t note_text (images_data s1)
                                 (formatting_data s1) now;
                        new_id = last_insert_rowid sqlite3_connect;
                        s2 = s1\<lparr>notes_table := rows, current_note_id := Some new_id\<rparr>;
                        s3 = (if active_tab s2 = None then add_tab s2 (Some new_id) t
                              else add_tab (close_tab s2 (active_tab s2)) (Some new_id) t)
                    in animate_status_bar (''Note '' @ quoted t @ '' saved successfully'') s3
                | Some nid \<Rightarrow>
                    let rows = update_note_in_db (notes_table s1) nid t note_text
                                 (images_data s1) (formatting_data s1) now;
                        s2 = s1\<lparr>notes_table := rows\<rparr>;
                        s3 = (if has_tab s2 (Some nid)
                              then s2\<lparr>open_notes :=
                                        map (\<lambda>tab. (fst tab, if fst tab = Some nid then t
                                                               else snd tab)) (open_notes s2)\<rparr>
                              else s2)
                    in animate_status_bar (''Note '' @ quoted t @ '' updated successfully'') s3)))"

text \<open>\<^verbatim>\<open>delete_note\<close>; \<open>confirmed\<close> is the answer to the confirmation dialog.\<close>

definition delete_note :: "app \<Rightarrow> bool \<Rightarrow> app" where
  "delete_note s confirmed =
     (case current_note_id s of
        None \<Rightarrow> animate_status_bar ''No note is currently open'' s
      | Some nid \<Rightarrow>
          if \<not> confirmed then s
          else
            (case get_note_content (notes_table s) (Some nid) of
               None \<Rightarrow> s
             | Some note_content \<Rightarrow>
                 let s1 = s\<lparr>notes_table := delete_note_from_db (notes_table s) nid\<rparr>;
                     s2 = animate_status_bar (''Note '' @ quoted (title note_content) @ '' deleted'')
                            s1;
                     s3 = close_tab s2 (Some nid)
                 in if active_tab s3 = None then clear_editor s3 else s3))"

section \<open>What the user does in the text widget\<close>

text \<open>
  Typing, deleting and selecting are done by the widget's own bindings. An insertion
  puts the text at the insert mark with one call of the widget's \<^verbatim>\<open>insert\<close>: one
  character for a key, the whole text for the widget's own paste. A deletion removes a
  range. Both raise the modified flag, so that \<^verbatim>\<open>on_text_modified\<close> runs afterwards.
\<close>

definition set_cursor :: "app \<Rightarrow> nat \<Rightarrow> app" where
  "set_cursor s i =
     s\<lparr>text_area := (text_area s)\<lparr>insert_mark := min i (length (cells (text_area s)) - 1)\<rparr>\<rparr>"

definition user_insert :: "app \<Rightarrow> nat \<Rightarrow> string \<Rightarrow> app" where
  "user_insert s i txt =
     (let s1 = set_cursor s i in
      on_text_modified
        (s1\<lparr>text_area := tk_insert (text_area s1) (insert_mark (text_area s1)) txt\<rparr>))"

definition user_delete :: "app \<Rightarrow> nat \<Rightarrow> nat \<Rightarrow> app" where
  "user_delete s a b = on_text_modified (s\<lparr>text_area := tk_delete (text_area s) a b\<rparr>)"

definition user_select :: "app \<Rightarrow> nat \<Rightarrow> nat \<Rightarrow> app" where
  "user_select s a b =
     s\<lparr>text_area :=
         tag_add ''sel'' a b (tag_remove ''sel'' 0 (end_index (text_area s)) (text_area s))\<rparr>"

text \<open>
  The program's callbacks that change the text, each followed by the handler.
  \<^verbatim>\<open>paste_from_clipboard\<close> is bound to \<^verbatim>\<open>Control-v\<close> on the root window;
  \<open>do_paste\<close> is the callback by itself, as it runs when the key is pressed with the
  focus outside the text widget. With the focus inside, the widget's own binding of the
  key comes first; what it does depends on the platform and is an insertion as in
  \<open>user_insert\<close> where it pastes.
\<close>

definition do_insert_image :: "app \<Rightarrow> chosen_file \<Rightarrow> app" where
  "do_insert_image s file = on_text_modified (insert_image s file)"

definition do_paste :: "app \<Rightarrow> clipboard \<Rightarrow> app" where
  "do_paste s clip = on_text_modified (paste_from_clipboard s clip)"

definition do_open_note :: "app \<Rightarrow> int \<Rightarrow> string \<Rightarrow> app" where
  "do_open_note s nid t = on_text_modified (open_note_in_tab s nid t)"

definition do_new_note :: "app \<Rightarrow> app" where
  "do_new_note s = on_text_modified (new_note s)"

definition do_save_note :: "app \<Rightarrow> string option \<Rightarrow> nat \<Rightarrow> app" where
  "do_save_note s answer now = on_text_modified (save_note s answer now)"

section \<open>Well-formed widgets\<close>

text \<open>
  The widget always ends with its line end, and the insert mark is at one of its
  positions.
\<close>

definition wf_widget :: "widget \<Rightarrow> bool" where
  "wf_widget w = (cells w \<noteq> [] \<and> fst (last (cells w)) = Ch newline \<and>
     insert_mark w < length (cells w))"

section \<open>Looking up a stored image\<close>

text \<open>The blob stored under an image id, if any.\<close>

definition stored_blob :: "app \<Rightarrow> string \<Rightarrow> blob option" where
  "stored_blob s k =
     (case images_data s of ImgDict kvs \<Rightarrow> map_of kvs k | ImgOther b \<Rightarrow> None)"

section \<open>Image ids and the counter\<close>









text \<open>
  What the user can do with a note, and the program's reaction to each: the entries of
  the file menu, the buttons of a tab, the image button, the paste key, the widget's own
  editing, and the buttons and boxes of the toolbar.
\<close>

datatype event =
    New
  | Open int string
  | Save "string option" nat
  | Delete bool
  | CloseTab "int option"
  | SwitchTab "int option"
  | InsertImage chosen_file
  | Paste clipboard
  | Type nat string
  | Erase nat nat
  | Select nat nat
  | Bold
  | Italic
  | Underline
  | FontSize string
  | FontFamily string

fun perform :: "app \<Rightarrow> event \<Rightarrow> app" where
  "perform s New = do_new_note s"
| "perform s (Open nid t) = do_open_note s nid t"
| "perform s (Save answer now) = do_save_note s answer now"
| "perform s (Delete confirmed) = on_text_modified (delete_note s confirmed)"
| "perform s (CloseTab nid) = on_text_modified (close_tab s nid)"
| "perform s (SwitchTab nid) = on_text_modified (activate_tab s nid)"
| "perform s (InsertImage chosen) = do_insert_image s chosen"
| "perform s (Paste clip) = do_paste s clip"
| "perform s (Type i txt) = user_insert s i txt"
| "perform s (Erase a b) = user_delete s a b"
| "perform s (Select a b) = user_select s a b"
| "perform s Bold = toggle_bold s"
| "perform s Italic = toggle_italic s"
| "perform s Underline = toggle_underline s"
| "perform s (FontSize box) = change_font_size s box"
| "perform s (FontFamily fam) = change_font_family s fam"

definition run :: "app \<Rightarrow> event list \<Rightarrow> app" where
  "run s evs = foldl perform s evs"

section \<open>Widgets without tags, rows without images\<close>

text \<open>No position of the widget carries a tag: the style table is empty.\<close>

definition untagged :: "cell list \<Rightarrow> bool" where
  "untagged cs = list_all (\<lambda>c. snd c = {}) cs"

text \<open>The images column holds no image to place.\<close>

fun no_images :: "images_val column \<Rightarrow> bool" where
  "no_images (Json (ImgDict kvs)) = (kvs = [])"
| "no_images c = True"

section \<open>Formatting columns\<close>

text \<open>
  An entry of a range list as \<^verbatim>\<open>save_formatting_data\<close> writes it: the names of the
  two ends of the range.
\<close>

definition range_json :: "(nat \<times> nat) \<times> (nat \<times> nat) \<Rightarrow> json" where
  "range_json p = JArr [JPos (fst (fst p)) (snd (fst p)), JPos (fst (snd p)) (snd (snd p))]"

text \<open>The same database with every formatting column empty.\<close>

definition without_formatting :: "app \<Rightarrow> app" where
  "without_formatting s = s\<lparr>notes_table := map (\<lambda>x. x\<lparr>formatting := Null\<rparr>) (notes_table s)\<rparr>"

section \<open>Example rows\<close>

text \<open>A row whose formatting column holds text that is not JSON, such as \<^verbatim>\<open>not-json\<close>.\<close>

definition unparsable_row :: note_row where
  "unparsable_row =
     \<lparr>note_id = 1, title = ''t'', content = ''ab'' @ [newline], updated_at = 5,
      images = Null, formatting = Malformed\<rparr>"

text \<open>
  A row with a stored image, its marker in the content, and a formatting column that is
  not JSON.
\<close>

definition pictured_row :: note_row where
  "pictured_row =
     \<lparr>note_id = 1, title = ''t'', content = ''x[IMAGE:0]y'' @ [newline], updated_at = 5,
      images = Json (ImgDict [(''0'', Picture (Pixels 8 6 ''A''))]), formatting = Malformed\<rparr>"

text \<open>
  A row whose formatting column holds JSON of another shape:
  \<^verbatim>\<open>{"bold": [["1.0", "1.1"]], "italic": 5}\<close>.
\<close>

definition misshapen_row :: note_row where
  "misshapen_row =
     \<lparr>note_id = 1, title = ''t'', content = ''ab'' @ [newline], updated_at = 5,
      images = Null,
      formatting = Json (JObj [(''bold'', JArr [JArr [JPos 1 0, JPos 1 1]]), (''italic'', JNum 5)])\<rparr>"

section \<open>The tags of the toggle state\<close>

text \<open>
  The tags that \<^verbatim>\<open>apply_current_formatting\<close> adds: one for each of bold, italic and
  underline that is toggled on, the size tag when the current size is not the default,
  the family tag when the current family is not the default.
\<close>

definition active_tags :: "app \<Rightarrow> string set" where
  "active_tags s =
     (if bold (current_format s) then {''bold''} else {}) \<union>
     (if italic (current_format s) then {''italic''} else {}) \<union>
     (if underline (current_format s) then {''underline''} else {}) \<union>
     (if cur_size (current_format s) \<noteq> font_size (settings s)
      then {size_tag (cur_size (current_format s))} else {}) \<union>
     (if cur_family (current_format s) \<noteq> font_family (settings s)
      then {family_tag (cur_family (current_format s))} else {})"

section \<open>States used in the examples\<close>

text \<open>The settings row that \<^verbatim>\<open>create_tables\<close> inserts into an empty database.\<close>

definition default_prefs :: prefs where
  "default_prefs = \<lparr>theme = ''dark'', font_family = ''Arial'', font_size = 12\<rparr>"

text \<open>The program started on an empty database, after \<^bold>\<open>New\<close>.\<close>

definition fresh_app :: app where
  "fresh_app = do_new_note (init_app [] default_prefs [''Arial'', ''Courier''])"

section \<open>A note saved and opened again\<close>

text \<open>
  A new note in which a picture is inserted, bold is switched on and the letter a is
  typed after the picture.
\<close>

definition styled_note :: app where
  "styled_note =
     user_insert (toggle_bold (do_insert_image fresh_app (PictureFile (Pixels 8 6 ''A'')))) 1 ''a''"

text \<open>The same note saved under the title t and opened again from the list of notes.\<close>

definition reopened_note :: app where
  "reopened_note = do_open_note (do_save_note styled_note (Some ''t'') 7) 1 ''t''"

text \<open>A new note with the letter a, and the same note saved and opened again.\<close>

definition plain_note :: app where
  "plain_note = user_insert fresh_app 0 ''a''"

definition reopened_plain_note :: app where
  "reopened_plain_note = do_open_note (do_save_note plain_note (Some ''t'') 7) 1 ''t''"

section \<open>What opening a note and the tab functions leave alone\<close>

lemma load_images_keeps:
  "notes_table (load_images s col) = notes_table s"
  "settings_table (load_images s col) = settings_table s"
  "settings (load_images s col) = settings s"
  "current_note_id (load_images s col) = current_note_id s"
  by (simp_all add: load_images_def print_error_def Let_def
        split: column.splits images_val.splits prod.splits option.splits)

lemma load_formatting_keeps:
  "notes_table (load_formatting s col) = notes_table s"
  "settings_table (load_formatting s col) = settings_table s"
  "settings (load_formatting s col) = settings s"
  "current_note_id (load_formatting s col) = current_note_id s"
  by (simp_all add: load_formatting_def print_error_def Let_def
        split: column.splits outcome.splits)

lemma open_note_by_id_keeps:
  "notes_table (open_note_by_id s nid) = notes_table s"
  "settings_table (open_note_by_id s nid) = settings_table s"
  "settings (open_note_by_id s nid) = settings s"
  "current_note_id (open_note_by_id s nid) = nid"
  by (simp_all add: open_note_by_id_def animate_status_bar_def Let_def load_images_keeps
        load_formatting_keeps split: option.splits)

lemma activate_tab_keeps:
  "notes_table (activate_tab s nid) = notes_table s"
  "settings_table (activate_tab s nid) = settings_table s"
  "settings (activate_tab s nid) = settings s"
  by (simp_all add: activate_tab_def open_note_by_id_keeps)

lemma add_tab_keeps:
  "notes_table (add_tab s nid t) = notes_table s"
  "settings_table (add_tab s nid t) = settings_table s"
  "settings (add_tab s nid t) = settings s"
  "current_note_id (add_tab s nid t) = nid"
  by (simp_all add: add_tab_def activate_tab_def has_tab_def open_note_by_id_keeps)

lemma close_tab_keeps:
  "notes_table (close_tab s nid) = notes_table s"
  "settings_table (close_tab s nid) = settings_table s"
  "settings (close_tab s nid) = settings s"
  by (simp_all add: close_tab_def Let_def activate_tab_keeps clear_editor_def)

section \<open>Saving: validation comes before the store\<close>

text \<open>
  Claim C7. When the text of the note is empty after stripping white space, or the
  title dialog is cancelled or returns the empty string, \<^verbatim>\<open>save_note\<close> only shows an
  error in the status bar: the notes table and the settings table are as before, and
  so is every other field of the state.
\<close>

theorem save_note_rejects_before_store:
  assumes "strip (tk_get (text_area s) 0 (end_index (text_area s))) = [] \<or>
           answer = None \<or> answer = Some []"
  shows "notes_table (save_note s answer now) = notes_table s \<and>
         settings_table (save_note s answer now) = settings_table s \<and>
         (\<exists>msg. save_note s answer now = s\<lparr>status := msg\<rparr>) \<and>
         status (save_note s answer now) \<in>
           {''Error: Note must have content'', ''Error: Note must have a title''}"
  using assms
  by (auto simp: save_note_def animate_status_bar_def Let_def split: option.splits)

theorem save_note_rejects_before_store_witness:
  "notes_table (save_note (user_insert fresh_app 0 ''hi'') (Some []) 5) = [] \<and>
   status (save_note (user_insert fresh_app 0 ''hi'') (Some []) 5) =
     ''Error: Note must have a title''"
proof -
  have t: "notes_table (user_insert fresh_app 0 ''hi'') = []"
    by code_simp
  have st: "status (save_note (user_insert fresh_app 0 ''hi'') (Some []) 5) =
      ''Error: Note must have a title''"
    by code_simp
  from save_note_rejects_before_store [of "user_insert fresh_app 0 ''hi''" "Some []" 5]
  have "notes_table (save_note (user_insert fresh_app 0 ''hi'') (Some []) 5) =
      notes_table (user_insert fresh_app 0 ''hi'')"
    by simp
  with t st show ?thesis by simp
qed

section \<open>The time stamp of a save and the order of the listing\<close>

lemma save_formatting_data_keeps:
  "notes_table (save_formatting_data s) = notes_table s"
  "current_note_id (save_formatting_data s) = current_note_id s"
  "images_data (save_formatting_data s) = images_data s"
  "text_area (save_formatting_data s) = text_area s"
  "active_tab (save_formatting_data s) = active_tab s"
  by (simp_all add: save_formatting_data_def)

lemma save_note_first_table:
  assumes "strip (tk_get (text_area s) 0 (end_index (text_area s))) \<noteq> []" "t \<noteq> []"
    "current_note_id s = None"
  shows "notes_table (save_note s (Some t) now) =
         save_note_to_db (notes_table s) t (tk_get (text_area s) 0 (end_index (text_area s)))
           (images_data s) (formatting_data (save_formatting_data s)) now"
  using assms
  by (simp add: save_note_def Let_def animate_status_bar_def add_tab_keeps close_tab_keeps
        save_formatting_data_keeps)

lemma save_note_update_table:
  assumes "strip (tk_get (text_area s) 0 (end_index (text_area s))) \<noteq> []" "t \<noteq> []"
    "current_note_id s = Some nid"
  shows "notes_table (save_note s (Some t) now) =
         update_note_in_db (notes_table s) nid t
           (tk_get (text_area s) 0 (end_index (text_area s)))
           (images_data s) (formatting_data (save_formatting_data s)) now"
  using assms
  by (simp add: save_note_def Let_def animate_status_bar_def save_formatting_data_keeps)

lemma order_by_updated_desc_sorted:
  "sorted_wrt (\<lambda>a b. updated_at b \<le> updated_at a) (order_by_updated_desc rows)"
proof -
  have "sorted (map updated_at (sort_key updated_at rows))"
    by (rule sorted_sort_key)
  then have "sorted_wrt (\<lambda>a b. updated_at a \<le> updated_at b) (sort_key updated_at rows)"
    by (simp add: sorted_map)
  then show ?thesis
    by (simp add: order_by_updated_desc_def sorted_wrt_rev)
qed

lemma update_note_in_db_stamp:
  "\<forall>r \<in> set (update_note_in_db rows nid t c imgs fmt now).
      note_id r = nid \<longrightarrow> updated_at r = now"
  unfolding update_note_in_db_def set_map
  apply (rule ballI)
  apply (erule imageE)
  apply (simp split: if_splits)
  done

section \<open>The note id after the first save\<close>

text \<open>
  Claim C10 (the program does not do what the claim says). On the first save of an
  unsaved note with text and a title, into a table whose ids are positive, the row
  inserted gets the next row id, which is positive, while the id recorded in
  \<^verbatim>\<open>current_note_id\<close> is 0: \<^verbatim>\<open>last_insert_rowid()\<close> is asked of a connection that
  has inserted nothing. No row of the table has the recorded id.
\<close>

theorem first_save_reads_wrong_id:
  assumes "strip (tk_get (text_area s) 0 (end_index (text_area s))) \<noteq> []" "t \<noteq> []"
    "current_note_id s = None" "\<forall>r \<in> set (notes_table s). 0 < note_id r"
  shows "current_note_id (save_note s (Some t) now) = Some 0 \<and>
         note_id (last (notes_table (save_note s (Some t) now))) = next_rowid (notes_table s) \<and>
         0 < next_rowid (notes_table s) \<and>
         get_note_content (notes_table (save_note s (Some t) now))
           (current_note_id (save_note s (Some t) now)) = None"
proof -
  have pos: "0 < next_rowid (notes_table s)"
  proof (cases "notes_table s = []")
    case True
    then show ?thesis by (simp add: next_rowid_def)
  next
    case False
    then have "Max (set (map note_id (notes_table s))) \<in> set (map note_id (notes_table s))"
      by (intro Max_in) auto
    with assms(4) have "0 < Max (set (map note_id (notes_table s)))" by auto
    with False show ?thesis by (simp add: next_rowid_def)
  qed
  have cur: "current_note_id (save_note s (Some t) now) = Some 0"
    using assms(1-3)
    by (simp add: save_note_def Let_def animate_status_bar_def add_tab_keeps
          save_formatting_data_keeps sqlite3_connect_def)
  have tab: "notes_table (save_note s (Some t) now) =
      save_note_to_db (notes_table s) t (tk_get (text_area s) 0 (end_index (text_area s)))
        (images_data s) (formatting_data (save_formatting_data s)) now"
    using assms(1-3) by (rule save_note_first_table)
  have lst: "note_id (last (notes_table (save_note s (Some t) now))) = next_rowid (notes_table s)"
    by (simp add: tab save_note_to_db_def insert_note_def)
  have "find (\<lambda>r. note_id r = 0) (notes_table (save_note s (Some t) now)) = None"
    using assms(4) pos
    by (auto simp: tab save_note_to_db_def insert_note_def find_None_iff)
  then have "get_note_content (notes_table (save_note s (Some t) now))
      (current_note_id (save_note s (Some t) now)) = None"
    by (simp add: cur get_note_content_def)
  with pos cur lst show ?thesis by simp
qed

theorem first_save_reads_wrong_id_witness:
  "current_note_id (save_note (user_insert fresh_app 0 ''hi'') (Some ''t'') 5) = Some 0 \<and>
   note_id (last (notes_table (save_note (user_insert fresh_app 0 ''hi'') (Some ''t'') 5))) = 1"
proof -
  let ?s = "user_insert fresh_app 0 ''hi''"
  have c: "strip (tk_get (text_area ?s) 0 (end_index (text_area ?s))) \<noteq> []"
    by code_simp
  have d: "current_note_id ?s = None" "notes_table ?s = []"
    by code_simp+
  have e: "\<forall>r \<in> set (notes_table ?s). 0 < note_id r"
    by (simp add: d)
  have "''t'' \<noteq> []" by simp
  from first_save_reads_wrong_id [OF c this d(1) e, of 5]
  show ?thesis by (simp add: d next_rowid_def)
qed

section \<open>Inserting an image\<close>

lemma tk_get_all: "tk_get w 0 (end_index w) = cells_text (cells w)"
  by (simp add: tk_get_def end_index_def)

lemma cells_text_Cons: "cells_text (c # cs) = elem_text (fst c) @ cells_text cs"
  by (simp add: cells_text_def)

lemma cells_text_append: "cells_text (xs @ ys) = cells_text xs @ cells_text ys"
  by (simp add: cells_text_def)

lemma cells_text_take_drop: "cells_text (take p cs) @ cells_text (drop p cs) = cells_text cs"
  by (simp add: cells_text_append [symmetric])

lemma min_pos: "p < n \<Longrightarrow> min p (n - Suc 0) = p"
  by simp

lemma cells_insert_cells:
  "p < length (cells w) \<Longrightarrow>
   cells (insert_cells w p es) =
     take p (cells w) @ map (\<lambda>e. (e, inherited (cells w) p)) es @ drop p (cells w)"
  by (simp add: insert_cells_def Let_def min_pos)

lemma insert_then_delete_cells:
  assumes "p < length (cells w)" "m \<noteq> []"
  shows "cells (tk_delete (tk_insert w p m) p (p + length m)) = cells w"
proof -
  let ?cs = "take p (cells w) @ map (\<lambda>e. (e, inherited (cells w) p)) (map Ch m) @
      drop p (cells w)"
  have c: "cells (tk_insert w p m) = ?cs"
    using assms(1) by (simp add: tk_insert_def cells_insert_cells)
  have l: "length ?cs = length (cells w) + length m"
    using assms(1) by simp
  have "cells (tk_delete (tk_insert w p m) p (p + length m)) =
      take p ?cs @ drop (p + length m) ?cs"
    using assms
    by (simp add: tk_delete_def Let_def c l remove_cells_def min_def del: append_take_drop_id)
  also have "\<dots> = cells w"
    using assms(1) by simp
  finally show ?thesis .
qed

lemma cells_text_image_create:
  assumes "p < length (cells w)"
  shows "cells_text (cells (tk_image_create w p name)) = cells_text (cells w)"
proof -
  have "cells_text (cells (tk_image_create w p name)) =
      cells_text (take p (cells w)) @ cells_text (drop p (cells w))"
    using assms
    by (simp add: tk_image_create_def cells_insert_cells cells_text_append cells_text_Cons)
  then show ?thesis by (simp add: cells_text_take_drop)
qed

lemma length_tk_image_create [simp]:
  "length (cells (tk_image_create w i name)) = Suc (length (cells w))"
  by (simp add: tk_image_create_def insert_cells_def Let_def)

lemma marker_nonempty: "marker k \<noteq> []"
  by (simp add: marker_def)

lemma insert_image_text:
  assumes "wf_widget (text_area s)"
  shows "cells_text (cells (text_area (insert_image s file))) = cells_text (cells (text_area s))"
proof (cases "file")
  case NoFile
  then show ?thesis by (simp add: insert_image_def)
next
  case NotAPicture
  then show ?thesis by (simp add: insert_image_def print_error_def)
next
  case (PictureFile img)
  let ?p = "insert_mark (text_area s)"
  let ?k = "str_int (image_counter s)"
  let ?w1 = "tk_image_create (text_area s) ?p ?k"
  from assms have p: "?p < length (cells (text_area s))"
    by (simp add: wf_widget_def)
  then have p1: "?p < length (cells ?w1)" by simp
  have t1: "cells_text (cells ?w1) = cells_text (cells (text_area s))"
    using p by (rule cells_text_image_create)
  have "cells (tk_delete (tk_insert ?w1 ?p (marker ?k)) ?p (?p + length (marker ?k))) = cells ?w1"
    using p1 marker_nonempty by (rule insert_then_delete_cells)
  with t1 PictureFile show ?thesis
    by (simp add: insert_image_def Let_def print_error_def animate_status_bar_def
          split: option.splits)
qed

lemma paste_image_text:
  assumes "wf_widget (text_area s)"
  shows "cells_text (cells (text_area (paste_from_clipboard s (ClipImage img)))) =
         cells_text (cells (text_area s))"
proof -
  let ?p = "insert_mark (text_area s)"
  let ?k = "str_int (image_counter s)"
  let ?w1 = "tk_image_create (text_area s) ?p ?k"
  from assms have p: "?p < length (cells (text_area s))"
    by (simp add: wf_widget_def)
  then have p1: "?p < length (cells ?w1)" by simp
  have t1: "cells_text (cells ?w1) = cells_text (cells (text_area s))"
    using p by (rule cells_text_image_create)
  have "cells (tk_delete (tk_insert ?w1 ?p (marker ?k)) ?p (?p + length (marker ?k))) = cells ?w1"
    using p1 marker_nonempty by (rule insert_then_delete_cells)
  with t1 show ?thesis
    by (simp add: paste_from_clipboard_def Let_def print_error_def animate_status_bar_def
          split: option.splits)
qed

text \<open>
  Claim C1 (the program does not do what the claim says). \<^verbatim>\<open>insert_image\<close> and
  the image branch of \<^verbatim>\<open>paste_from_clipboard\<close> insert the marker and then delete the
  range they have just inserted: the characters of the text widget after the operation
  are the characters before it. The marker of the new image is in the text only if the
  user had typed it there.
\<close>

theorem image_marker_is_deleted_again:
  assumes "wf_widget (text_area s)"
  shows "tk_get (text_area (insert_image s (PictureFile img))) 0
           (end_index (text_area (insert_image s (PictureFile img)))) =
         tk_get (text_area s) 0 (end_index (text_area s)) \<and>
         tk_get (text_area (paste_from_clipboard s (ClipImage img))) 0
           (end_index (text_area (paste_from_clipboard s (ClipImage img)))) =
         tk_get (text_area s) 0 (end_index (text_area s))"
  using assms by (simp add: tk_get_all insert_image_text paste_image_text)

theorem image_marker_is_deleted_again_witness:
  "tk_get (text_area (insert_image fresh_app (PictureFile (Pixels 800 600 ''photo'')))) 0
     (end_index (text_area (insert_image fresh_app (PictureFile (Pixels 800 600 ''photo''))))) =
     [newline] \<and>
   images_data (insert_image fresh_app (PictureFile (Pixels 800 600 ''photo''))) =
     ImgDict [(''0'', Picture (Pixels 800 600 ''photo''))] \<and>
   status (insert_image fresh_app (PictureFile (Pixels 800 600 ''photo''))) =
     ''Image inserted successfully'' \<and>
   tk_search (marker ''0'') 0
     (text_area (insert_image fresh_app (PictureFile (Pixels 800 600 ''photo'')))) = None"
proof -
  have w: "wf_widget (text_area fresh_app)" by code_simp
  have t: "tk_get (text_area fresh_app) 0 (end_index (text_area fresh_app)) = [newline]"
    by code_simp
  have r: "images_data (insert_image fresh_app (PictureFile (Pixels 800 600 ''photo''))) =
     ImgDict [(''0'', Picture (Pixels 800 600 ''photo''))]"
    "status (insert_image fresh_app (PictureFile (Pixels 800 600 ''photo''))) =
     ''Image inserted successfully''"
    "tk_search (marker ''0'') 0
     (text_area (insert_image fresh_app (PictureFile (Pixels 800 600 ''photo'')))) = None"
    by code_simp+
  from image_marker_is_deleted_again [OF w, of "Pixels 800 600 ''photo''"] t r
  show ?thesis by simp
qed

section \<open>Which blob is stored for an image\<close>

lemma map_of_dict_set: "map_of (dict_set k v kvs) k = Some v"
  by (induction kvs) auto

lemma map_of_dict_set_other: "k' \<noteq> k \<Longrightarrow> map_of (dict_set k v kvs) k' = map_of kvs k'"
  by (induction kvs) auto


text \<open>
  Claim C3 (the program does not do what the claim says, for a picture inserted from a
  file). For a picture wider than 500, \<^verbatim>\<open>paste_from_clipboard\<close> stores under the new
  id the resized picture, whose width is 500. \<^verbatim>\<open>insert_image\<close> resizes the picture in
  the same way, but then stores the bytes of the chosen file, that is the picture at its
  full size: only the copy shown in the editor is the resized one.
\<close>

theorem stored_blob_of_pasted_and_inserted_image:
  assumes "images_data s = ImgDict kvs" "500 < pic_width img"
  shows "stored_blob (paste_from_clipboard s (ClipImage img)) (str_int (image_counter s)) =
           Some (Picture (Lanczos500 img)) \<and>
         pic_width (Lanczos500 img) = 500 \<and>
         stored_blob (insert_image s (PictureFile img)) (str_int (image_counter s)) =
           Some (Picture img)"
  using assms
  by (simp add: stored_blob_def paste_from_clipboard_def insert_image_def Let_def
        animate_status_bar_def map_of_dict_set)

theorem stored_blob_of_pasted_and_inserted_image_witness:
  "stored_blob (paste_from_clipboard fresh_app (ClipImage (Pixels 800 600 ''photo''))) ''0'' =
     Some (Picture (Lanczos500 (Pixels 800 600 ''photo''))) \<and>
   stored_blob (insert_image fresh_app (PictureFile (Pixels 800 600 ''photo''))) ''0'' =
     Some (Picture (Pixels 800 600 ''photo'')) \<and>
   pic_width (Pixels 800 600 ''photo'') = 800"
proof -
  have a: "images_data fresh_app = ImgDict []" "str_int (image_counter fresh_app) = ''0''"
    by code_simp+
  have b: "500 < pic_width (Pixels 800 600 ''photo'')" by simp
  from stored_blob_of_pasted_and_inserted_image [OF a(1) b] show ?thesis
    by (simp add: a(2))
qed

section \<open>Decimal image ids\<close>

















section \<open>The counter stays above the stored ids\<close>






lemma max_default_nonneg: "list_all (\<lambda>n. 0 \<le> n) ns \<Longrightarrow> 0 \<le> d \<Longrightarrow> 0 \<le> max_default ns d"
proof (cases "ns = []")
  case True
  assume "0 \<le> d"
  with True show ?thesis by (simp add: max_default_def)
next
  case False
  assume a: "list_all (\<lambda>n. 0 \<le> n) ns"
  from False have "Max (set ns) \<in> set ns" by (intro Max_in) auto
  with a have "0 \<le> Max (set ns)" by (auto simp: list_all_iff)
  with False show ?thesis by (simp add: max_default_def)
qed










































section \<open>Opening a note whose formatting is corrupt\<close>

lemma tk_delete_all:
  "cells w \<noteq> [] \<Longrightarrow> fst (last (cells w)) = Ch newline \<Longrightarrow>
   cells (tk_delete w 0 (end_index w)) = [(Ch newline, {})]"
  apply (simp add: tk_delete_def end_index_def Let_def remove_cells_def)
  apply (cases "cells w" rule: rev_cases)
  apply simp_all
  done

lemma cells_tk_insert_empty:
  "cells w = [(Ch newline, {})] \<Longrightarrow>
   cells (tk_insert w 0 txt) = map (\<lambda>c. (Ch c, {})) txt @ [(Ch newline, {})]"
  by (simp add: tk_insert_def insert_cells_def Let_def inherited_def comp_def)

lemma untagged_take_drop:
  "untagged cs \<Longrightarrow> untagged (take n cs) \<and> untagged (drop n cs)"
  by (auto simp: untagged_def list_all_iff dest: in_set_takeD in_set_dropD)

lemma untagged_append: "untagged (xs @ ys) = (untagged xs \<and> untagged ys)"
  by (simp add: untagged_def)

lemma untagged_update: "untagged cs \<Longrightarrow> untagged (cs[i := (e, {})])"
  by (auto simp: untagged_def list_all_iff dest!: set_update_subset_insert [THEN subsetD])

lemma untagged_tk_delete: "untagged (cells w) \<Longrightarrow> untagged (cells (tk_delete w a b))"
  by (simp add: tk_delete_def Let_def remove_cells_def untagged_append untagged_take_drop
        untagged_update)

lemma inherited_untagged: "untagged cs \<Longrightarrow> inherited cs p = {}"
  by (simp add: inherited_def untagged_def list_all_iff)

lemma untagged_insert_cells: "untagged (cells w) \<Longrightarrow> untagged (cells (insert_cells w i es))"
  by (simp add: insert_cells_def Let_def untagged_append untagged_take_drop inherited_untagged)
     (simp add: untagged_def list_all_iff)

lemma untagged_place_image:
  "untagged (cells w) \<Longrightarrow> untagged (cells (fst (place_image k b start w)))"
proof (induction k b start w rule: place_image.induct)
  case (1 img_id b start_idx w)
  show ?case
  proof (cases "tk_search (marker img_id) start_idx w")
    case None
    with 1 show ?thesis by (subst place_image.simps) simp
  next
    case (Some i)
    show ?thesis
    proof (cases b)
      case Undecodable
      with Some 1 show ?thesis
        by (subst place_image.simps) (simp add: untagged_tk_delete)
    next
      case (Picture p)
      have "untagged (cells (tk_image_create (tk_delete w i (i + length (marker img_id))) i img_id))"
        using 1(2) by (simp add: tk_image_create_def untagged_insert_cells untagged_tk_delete)
      from 1(1) [OF Some Picture this] Some Picture show ?thesis
        by (subst place_image.simps) simp
    qed
  qed
qed

lemma untagged_place_images:
  "untagged (cells w) \<Longrightarrow> untagged (cells (fst (place_images kvs w out)))"
proof (induction kvs arbitrary: w out)
  case Nil
  then show ?case by simp
next
  case (Cons kv kvs)
  obtain k b where kv: "kv = (k, b)" by (cases kv)
  obtain w' raised where p: "place_image k b 0 w = (w', raised)" by (cases "place_image k b 0 w")
  from untagged_place_image [OF Cons.prems, of k b 0] p have "untagged (cells w')" by simp
  from Cons.IH [OF this] show ?case by (simp add: kv p)
qed

lemma untagged_load_images:
  "untagged (cells (text_area s)) \<Longrightarrow> untagged (cells (text_area (load_images s col)))"
proof -
  assume u: "untagged (cells (text_area s))"
  have "untagged (cells (fst (place_images kvs (text_area s) out)))" for kvs out
    using u by (rule untagged_place_images)
  then have "place_images kvs (text_area s) out = (w, o') \<Longrightarrow> untagged (cells w)" for kvs out w o'
    by (metis fst_conv)
  with u show ?thesis
    by (simp add: load_images_def Let_def print_error_def
          split: column.splits images_val.splits prod.splits option.splits)
qed

lemma map_fst_upd_range:
  "(\<And>c. fst (f c) = fst c) \<Longrightarrow> map fst (upd_range f a b cs) = map fst cs"
  by (rule nth_equalityI) (simp_all add: upd_range_def)

lemma map_fst_tag_add: "map fst (cells (tag_add t a b w)) = map fst (cells w)"
  by (simp add: tag_add_def map_fst_upd_range)

lemma map_fst_apply_items:
  "map fst (cells (result (apply_items tag xs w))) = map fst (cells w)"
  by (induction xs arbitrary: w)
    (simp_all add: map_fst_tag_add split: option.splits prod.splits)

lemma map_fst_apply_ranges:
  "map fst (cells (result (apply_ranges tag v w))) = map fst (cells w)"
  by (cases v) (simp_all add: map_fst_apply_items)

lemma map_fst_then_do:
  assumes "map fst (cells (result r)) = map fst (cells w)"
    "\<And>w'. map fst (cells (result (f w'))) = map fst (cells w')"
  shows "map fst (cells (result (then_do r f))) = map fst (cells w)"
  using assms by (cases r) simp_all

lemma map_fst_apply_key:
  "map fst (cells (result (apply_key tag j w))) = map fst (cells w)"
  by (simp add: apply_key_def map_fst_apply_ranges split: option.splits)

lemma map_fst_apply_sizes:
  "map fst (cells (result (apply_sizes kvs w))) = map fst (cells w)"
proof (induction kvs arbitrary: w)
  case Nil
  then show ?case by simp
next
  case (Cons kv kvs)
  obtain k v where kv: "kv = (k, v)" by (cases kv)
  show ?case
  proof (cases "py_int k")
    case None
    then show ?thesis by (simp add: kv)
  next
    case (Some n)
    have "map fst (cells (result (then_do (apply_ranges (''size_'' @ k) v w) (apply_sizes kvs)))) =
        map fst (cells w)"
      by (rule map_fst_then_do) (simp_all add: map_fst_apply_ranges Cons.IH)
    with Some show ?thesis by (simp add: kv)
  qed
qed

lemma map_fst_apply_families:
  "map fst (cells (result (apply_families kvs w))) = map fst (cells w)"
proof (induction kvs arbitrary: w)
  case Nil
  then show ?case by simp
next
  case (Cons kv kvs)
  obtain k v where kv: "kv = (k, v)" by (cases kv)
  have "map fst (cells (result (then_do (apply_ranges (family_tag k) v w) (apply_families kvs)))) =
      map fst (cells w)"
    by (rule map_fst_then_do) (simp_all add: map_fst_apply_ranges Cons.IH)
  then show ?case by (simp add: kv)
qed

lemma map_fst_apply_dict:
  assumes "\<And>kvs w'. map fst (cells (result (f kvs w'))) = map fst (cells w')"
  shows "map fst (cells (result (apply_dict key f j w))) = map fst (cells w)"
  using assms by (simp add: apply_dict_def split: option.splits json.splits)

lemma map_fst_apply_formatting:
  "map fst (cells (result (apply_formatting j w))) = map fst (cells w)"
  unfolding apply_formatting_def
  by (intro map_fst_then_do map_fst_apply_key map_fst_apply_dict map_fst_apply_sizes
        map_fst_apply_families)

lemma cells_text_map_fst: "map fst cs = map fst cs' \<Longrightarrow> cells_text cs = cells_text cs'"
proof -
  assume "map fst cs = map fst cs'"
  then have "map elem_text (map fst cs) = map elem_text (map fst cs')" by simp
  then show ?thesis by (simp add: cells_text_def comp_def)
qed

lemma load_formatting_text:
  "cells_text (cells (text_area (load_formatting s col))) = cells_text (cells (text_area s))"
proof -
  have "map fst (cells (text_area (load_formatting s col))) = map fst (cells (text_area s))"
  proof (cases col)
    case (Json j)
    show ?thesis
    proof (cases "apply_formatting j (text_area s)")
      case (Done w)
      with map_fst_apply_formatting [of j "text_area s"] Json show ?thesis
        by (simp add: load_formatting_def Let_def)
    next
      case (Raised w)
      with map_fst_apply_formatting [of j "text_area s"] Json show ?thesis
        by (simp add: load_formatting_def print_error_def Let_def)
    qed
  qed (simp_all add: load_formatting_def print_error_def Let_def)
  then show ?thesis by (rule cells_text_map_fst)
qed

lemma load_images_no_images:
  "no_images col \<Longrightarrow> text_area (load_images s col) = text_area s"
  by (cases col rule: no_images.cases) (simp_all add: load_images_def print_error_def)

lemma status_open_note_by_id:
  "get_note_content (notes_table s) nid = Some r \<Longrightarrow>
   status (open_note_by_id s nid) = ''Opened note: '' @ title r"
  by (simp add: open_note_by_id_def Let_def animate_status_bar_def)

lemma text_area_open_note_by_id:
  "get_note_content (notes_table s) nid = Some r \<Longrightarrow>
   text_area (open_note_by_id s nid) =
     text_area (load_formatting
       (load_images
          (s\<lparr>current_note_id := nid,
              text_area := tk_insert (tk_delete (text_area s) 0 (end_index (text_area s))) 0
                             (content r),
              current_format := default_format (s\<lparr>current_note_id := nid\<rparr>)\<rparr>)
          (images r))
       (formatting r))"
  by (simp add: open_note_by_id_def Let_def animate_status_bar_def)

lemma cells_text_plain: "cells_text (map (\<lambda>c. (Ch c, ts)) str) = str"
  by (induction str) (simp_all add: cells_text_def)

lemma length_upd_range [simp]: "length (upd_range f a b xs) = length xs"
  by (simp add: upd_range_def)

lemma nth_upd_range:
  "j < length xs \<Longrightarrow>
   upd_range f a b xs ! j = (if a \<le> j \<and> j < b then f (xs ! j) else xs ! j)"
  by (simp add: upd_range_def)

lemma length_tag_add [simp]: "length (cells (tag_add t a b w)) = length (cells w)"
  by (simp add: tag_add_def)

lemma length_tag_remove [simp]: "length (cells (tag_remove t a b w)) = length (cells w)"
  by (simp add: tag_remove_def)

lemma tags_at_tag_add:
  "tags_at (cells (tag_add t a b w)) j =
     (if a \<le> j \<and> j < b \<and> j < length (cells w) then insert t (tags_at (cells w) j)
      else tags_at (cells w) j)"
  by (simp add: tags_at_def) (simp add: tag_add_def nth_upd_range)

lemma tags_at_tag_remove:
  "tags_at (cells (tag_remove t a b w)) j =
     (if a \<le> j \<and> j < b then tags_at (cells w) j - {t} else tags_at (cells w) j)"
  by (simp add: tags_at_def) (simp add: tag_remove_def nth_upd_range)

lemma get_note_content_map:
  "get_note_content (map (\<lambda>x. x\<lparr>formatting := Null\<rparr>) rows) nid =
   map_option (\<lambda>x. x\<lparr>formatting := Null\<rparr>) (get_note_content rows nid)"
proof (cases nid)
  case None
  then show ?thesis by (simp add: get_note_content_def)
next
  case (Some i)
  have "find (\<lambda>r. note_id r = i) (map (\<lambda>x. x\<lparr>formatting := Null\<rparr>) rows) =
      map_option (\<lambda>x. x\<lparr>formatting := Null\<rparr>) (find (\<lambda>r. note_id r = i) rows)"
    by (induction rows) simp_all
  with Some show ?thesis by (simp add: get_note_content_def)
qed

lemma fst_place_images_out:
  "fst (place_images kvs w out) = fst (place_images kvs w out')"
proof (induction kvs arbitrary: w out out')
  case Nil
  then show ?case by simp
next
  case (Cons kv kvs)
  obtain k b where kv: "kv = (k, b)" by (cases kv)
  obtain w' r where p: "place_image k b 0 w = (w', r)" by (cases "place_image k b 0 w")
  from Cons.IH [of w'] kv p show ?case by simp
qed

lemma text_area_load_images_dict:
  "text_area (load_images s (Json (ImgDict kvs))) =
     (if kvs = [] then text_area s else fst (place_images kvs (text_area s) (console s)))"
  by (simp add: load_images_def Let_def print_error_def split: prod.splits option.splits)

lemma text_area_load_images_cong:
  assumes "text_area s = text_area s'"
  shows "text_area (load_images s col) = text_area (load_images s' col)"
proof (cases col)
  case Null
  with assms show ?thesis by (simp add: load_images_def)
next
  case Malformed
  with assms show ?thesis by (simp add: load_images_def print_error_def)
next
  case (Json v)
  show ?thesis
  proof (cases v)
    case (ImgOther b)
    with Json assms show ?thesis by (simp add: load_images_def print_error_def)
  next
    case (ImgDict kvs)
    with Json assms fst_place_images_out [of kvs "text_area s'" "console s" "console s'"]
    show ?thesis by (simp add: text_area_load_images_dict)
  qed
qed

lemma map_fst_load_formatting:
  "map fst (cells (text_area (load_formatting s col))) = map fst (cells (text_area s))"
proof (cases col)
  case (Json j)
  show ?thesis
  proof (cases "apply_formatting j (text_area s)")
    case (Done w)
    with map_fst_apply_formatting [of j "text_area s"] Json show ?thesis
      by (simp add: load_formatting_def Let_def)
  next
    case (Raised w)
    with map_fst_apply_formatting [of j "text_area s"] Json show ?thesis
      by (simp add: load_formatting_def print_error_def Let_def)
  qed
qed (simp_all add: load_formatting_def print_error_def Let_def)

lemma text_area_open_without_formatting:
  assumes "get_note_content (notes_table s) nid = Some r"
  shows "text_area (open_note_by_id (without_formatting s) nid) =
         text_area (load_images
           (s\<lparr>current_note_id := nid,
              text_area := tk_insert (tk_delete (text_area s) 0 (end_index (text_area s))) 0
                             (content r),
              current_format := default_format (s\<lparr>current_note_id := nid\<rparr>)\<rparr>)
           (images r))"
proof -
  let ?s' = "s\<lparr>notes_table := map (\<lambda>x. x\<lparr>formatting := Null\<rparr>) (notes_table s)\<rparr>"
  have w: "without_formatting s = ?s'" by (simp add: without_formatting_def)
  have g: "get_note_content (notes_table ?s') nid = Some (r\<lparr>formatting := Null\<rparr>)"
    using assms by (simp add: get_note_content_map)
  have "text_area (open_note_by_id ?s' nid) =
      text_area (load_images
        (?s'\<lparr>current_note_id := nid,
            text_area := tk_insert (tk_delete (text_area s) 0 (end_index (text_area s))) 0
                           (content r),
            current_format := default_format (?s'\<lparr>current_note_id := nid\<rparr>)\<rparr>)
        (images r))"
    using text_area_open_note_by_id [OF g] by (simp add: load_formatting_def end_index_def)
  also have "\<dots> = text_area (load_images
        (s\<lparr>current_note_id := nid,
            text_area := tk_insert (tk_delete (text_area s) 0 (end_index (text_area s))) 0
                           (content r),
            current_format := default_format (s\<lparr>current_note_id := nid\<rparr>)\<rparr>)
        (images r))"
    by (rule text_area_load_images_cong) simp
  finally show ?thesis by (simp only: w)
qed

lemma tags_mono_tag_add:
  "tags_at (cells w) i \<subseteq> tags_at (cells (tag_add t a b w)) i"
  by (auto simp: tags_at_tag_add)

lemma tags_mono_apply_items:
  "tags_at (cells w) i \<subseteq> tags_at (cells (result (apply_items tag xs w))) i"
proof (induction tag xs w rule: apply_items.induct)
  case (1 tag w)
  then show ?case by simp
next
  case (2 tag x xs w)
  show ?case
  proof (cases "unpack2 x")
    case None
    then show ?thesis by simp
  next
    case (Some ab)
    obtain a b where ab: "ab = (a, b)" by (cases ab)
    show ?thesis
    proof (cases "tk_pos w a")
      case None
      with Some ab show ?thesis by simp
    next
      case pa: (Some p)
      show ?thesis
      proof (cases "tk_pos w b")
        case None
        with Some ab pa show ?thesis by simp
      next
        case pb: (Some q)
        from 2 [OF Some ab [symmetric] refl pa pb]
        have "tags_at (cells (tag_add tag p q w)) i \<subseteq>
            tags_at (cells (result (apply_items tag xs (tag_add tag p q w)))) i" .
        with tags_mono_tag_add [of w i tag p q] Some ab pa pb show ?thesis by auto
      qed
    qed
  qed
qed

lemma tags_mono_apply_ranges:
  "tags_at (cells w) i \<subseteq> tags_at (cells (result (apply_ranges tag v w))) i"
  by (cases v) (simp_all add: tags_mono_apply_items)

lemma tags_mono_then_do:
  assumes "tags_at (cells w) i \<subseteq> tags_at (cells (result r)) i"
    "\<And>w'. tags_at (cells w') i \<subseteq> tags_at (cells (result (f w'))) i"
  shows "tags_at (cells w) i \<subseteq> tags_at (cells (result (then_do r f))) i"
proof (cases r)
  case (Done x)
  with assms(1) assms(2) [of x] show ?thesis by auto
next
  case (Raised x)
  with assms(1) show ?thesis by simp
qed

lemma tags_mono_apply_key:
  "tags_at (cells w) i \<subseteq> tags_at (cells (result (apply_key tag j w))) i"
  by (simp add: apply_key_def tags_mono_apply_ranges split: option.splits)

lemma tags_mono_apply_sizes:
  "tags_at (cells w) i \<subseteq> tags_at (cells (result (apply_sizes kvs w))) i"
proof (induction kvs arbitrary: w)
  case Nil
  then show ?case by simp
next
  case (Cons kv kvs)
  obtain k v where kv: "kv = (k, v)" by (cases kv)
  show ?case
  proof (cases "py_int k")
    case None
    then show ?thesis by (simp add: kv)
  next
    case (Some n)
    have "tags_at (cells w) i \<subseteq>
        tags_at (cells (result (then_do (apply_ranges (''size_'' @ k) v w) (apply_sizes kvs)))) i"
      by (rule tags_mono_then_do) (rule tags_mono_apply_ranges, rule Cons.IH)
    with Some show ?thesis by (simp add: kv)
  qed
qed

lemma tags_mono_apply_families:
  "tags_at (cells w) i \<subseteq> tags_at (cells (result (apply_families kvs w))) i"
proof (induction kvs arbitrary: w)
  case Nil
  then show ?case by simp
next
  case (Cons kv kvs)
  obtain k v where kv: "kv = (k, v)" by (cases kv)
  have "tags_at (cells w) i \<subseteq>
      tags_at (cells (result (then_do (apply_ranges (family_tag k) v w) (apply_families kvs)))) i"
    by (rule tags_mono_then_do) (rule tags_mono_apply_ranges, rule Cons.IH)
  then show ?case by (simp add: kv)
qed

lemma tags_mono_apply_dict:
  assumes "\<And>kvs w'. tags_at (cells w') i \<subseteq> tags_at (cells (result (f kvs w'))) i"
  shows "tags_at (cells w) i \<subseteq> tags_at (cells (result (apply_dict key f j w))) i"
  using assms by (simp add: apply_dict_def split: option.splits json.splits)

lemma tags_mono_after_bold:
  "tags_at (cells w) i \<subseteq> tags_at (cells (result
     (then_do (apply_key ''italic'' j w) (\<lambda>w.
      then_do (apply_key ''underline'' j w) (\<lambda>w.
      then_do (apply_dict ''font_size'' apply_sizes j w) (\<lambda>w.
      apply_dict ''font_family'' apply_families j w)))))) i"
  by (intro tags_mono_then_do tags_mono_apply_key tags_mono_apply_dict tags_mono_apply_sizes
        tags_mono_apply_families)

lemma tags_mono_apply_formatting:
  "tags_at (cells w) i \<subseteq> tags_at (cells (result (apply_formatting j w))) i"
  unfolding apply_formatting_def
  by (intro tags_mono_then_do tags_mono_apply_key tags_mono_apply_dict tags_mono_apply_sizes
        tags_mono_apply_families)

lemma tags_mono_load_formatting:
  "tags_at (cells (text_area s)) i \<subseteq> tags_at (cells (text_area (load_formatting s col))) i"
proof (cases col)
  case (Json j)
  from tags_mono_apply_formatting [of "text_area s" i j] Json show ?thesis
    by (cases "apply_formatting j (text_area s)")
      (simp_all add: load_formatting_def print_error_def Let_def)
qed (simp_all add: load_formatting_def print_error_def Let_def)

lemma offset_from_cong:
  "map fst cs = map fst cs' \<Longrightarrow> offset_from cs l c k = offset_from cs' l c k"
proof (induction cs arbitrary: cs' l c k)
  case Nil
  then show ?case by simp
next
  case (Cons x xs)
  from Cons.prems obtain y ys where c: "cs' = y # ys" "fst y = fst x" "map fst xs = map fst ys"
    by (cases cs') simp_all
  from c(2) have e: "is_line_end y = is_line_end x" by (simp add: is_line_end_def)
  note ih = Cons.IH [OF c(3)]
  show ?case
  proof (cases l)
    case 0
    show ?thesis
      unfolding c(1) 0 offset_from.simps e by (simp only: ih)
  next
    case (Suc m)
    show ?thesis
      unfolding c(1) Suc offset_from.simps e by (simp only: ih)
  qed
qed

lemma offset_of_cong: "map fst cs = map fst cs' \<Longrightarrow> offset_of cs p = offset_of cs' p"
  unfolding offset_of_def by (simp only: offset_from_cong [of cs cs'])

lemma tags_mono_then_do_first:
  assumes "\<And>w'. tags_at (cells w') i \<subseteq> tags_at (cells (result (f w'))) i"
  shows "tags_at (cells (result r)) i \<subseteq> tags_at (cells (result (then_do r f))) i"
  using assms by (cases r) simp_all

lemma apply_items_range_json:
  "apply_items tag (range_json p # xs) w =
     apply_items tag xs (tag_add tag (offset_of (cells w) (fst p)) (offset_of (cells w) (snd p)) w)"
  by (simp add: range_json_def)

lemma apply_items_prefix:
  assumes "p \<in> set ps" "offset_of (cells w) (fst p) \<le> i" "i < offset_of (cells w) (snd p)"
    "i < length (cells w)"
  shows "tag \<in> tags_at (cells (result (apply_items tag (map range_json ps @ rest) w))) i"
  using assms
proof (induction ps arbitrary: w)
  case Nil
  then show ?case by simp
next
  case (Cons q ps)
  let ?w = "tag_add tag (offset_of (cells w) (fst q)) (offset_of (cells w) (snd q)) w"
  have m: "map fst (cells ?w) = map fst (cells w)" by (rule map_fst_tag_add)
  have o: "offset_of (cells ?w) x = offset_of (cells w) x" for x
    using m by (rule offset_of_cong)
  have l: "length (cells ?w) = length (cells w)" by simp
  have e: "apply_items tag (map range_json (q # ps) @ rest) w =
      apply_items tag (map range_json ps @ rest) ?w"
    by (simp only: list.map append_Cons apply_items_range_json)
  show ?case
  proof (cases "p = q")
    case True
    with Cons.prems have "tag \<in> tags_at (cells ?w) i"
      by (simp add: tags_at_tag_add)
    with tags_mono_apply_items [of ?w i tag "map range_json ps @ rest"] show ?thesis
      unfolding e by blast
  next
    case False
    with Cons.prems(1) have "p \<in> set ps" by simp
    from Cons.IH [OF this, of ?w] Cons.prems(2-4) show ?thesis
      unfolding e by (simp only: o l)
  qed
qed

lemma apply_formatting_bold_prefix:
  assumes "map_of kvs ''bold'' = Some (JArr (map range_json ps @ rest))"
    "p \<in> set ps" "offset_of (cells w) (fst p) \<le> i" "i < offset_of (cells w) (snd p)"
    "i < length (cells w)"
  shows "''bold'' \<in> tags_at (cells (result (apply_formatting (JObj kvs) w))) i"
proof -
  have k: "apply_key ''bold'' (JObj kvs) w = apply_items ''bold'' (map range_json ps @ rest) w"
    using assms(1) by (simp add: apply_key_def)
  have "''bold'' \<in> tags_at (cells (result (apply_key ''bold'' (JObj kvs) w))) i"
    unfolding k using assms(2-5) by (rule apply_items_prefix)
  moreover have "tags_at (cells (result (apply_key ''bold'' (JObj kvs) w))) i \<subseteq>
      tags_at (cells (result (apply_formatting (JObj kvs) w))) i"
    unfolding apply_formatting_def
    by (rule tags_mono_then_do_first) (rule tags_mono_after_bold)
  ultimately show ?thesis by blast
qed

lemma text_area_load_formatting_json:
  "j \<noteq> JObj [] \<Longrightarrow>
   text_area (load_formatting s (Json j)) = result (apply_formatting j (text_area s))"
  by (cases "apply_formatting j (text_area s)")
    (simp_all add: load_formatting_def print_error_def Let_def)

lemma console_load_formatting_malformed:
  "console (load_formatting s Malformed) = console s @ [''Error applying formatting'']"
  by (simp add: load_formatting_def print_error_def Let_def)

lemma console_open_note_by_id:
  "get_note_content (notes_table s) nid = Some r \<Longrightarrow>
   console (open_note_by_id s nid) =
     console (load_formatting
       (load_images
          (s\<lparr>current_note_id := nid,
              text_area := tk_insert (tk_delete (text_area s) 0 (end_index (text_area s))) 0
                             (content r),
              current_format := default_format (s\<lparr>current_note_id := nid\<rparr>)\<rparr>)
          (images r))
       (formatting r))"
  by (simp add: open_note_by_id_def Let_def animate_status_bar_def)

text \<open>
  Claim C6, as amended. Opening a stored note always ends with the status bar
  reporting the note opened, whatever its formatting column holds, and the widget then
  holds the same characters and pictures as it does when the formatting column of the
  row is empty; for a row without stored images that is the stored content, followed by
  the widget's own line end. When the formatting column is not JSON, no position of the
  widget carries a tag afterwards, \<^verbatim>\<open>formatting_data\<close> is empty, and the error is
  printed. When the column is a JSON object whose entry for bold is a list, every range
  of that list that stands before its first malformed item is applied, whatever the rest
  of the list and the other entries hold.
\<close>

theorem open_note_with_corrupt_formatting:
  assumes "get_note_content (notes_table s) nid = Some r" "wf_widget (text_area s)"
  shows "status (open_note_by_id s nid) = ''Opened note: '' @ title r \<and>
         map fst (cells (text_area (open_note_by_id s nid))) =
           map fst (cells (text_area (open_note_by_id (without_formatting s) nid))) \<and>
         (no_images (images r) \<longrightarrow>
            tk_get (text_area (open_note_by_id s nid)) 0
              (end_index (text_area (open_note_by_id s nid))) = content r @ [newline]) \<and>
         (formatting r = Malformed \<longrightarrow>
            untagged (cells (text_area (open_note_by_id s nid))) \<and>
            formatting_data (open_note_by_id s nid) = JObj [] \<and>
            last (console (open_note_by_id s nid)) = ''Error applying formatting'') \<and>
         (\<forall>kvs ps rest p i.
            formatting r = Json (JObj kvs) \<and>
            map_of kvs ''bold'' = Some (JArr (map range_json ps @ rest)) \<and> p \<in> set ps \<and>
            offset_of (cells (text_area (open_note_by_id s nid))) (fst p) \<le> i \<and>
            i < offset_of (cells (text_area (open_note_by_id s nid))) (snd p) \<and>
            i < length (cells (text_area (open_note_by_id s nid))) \<longrightarrow>
            ''bold'' \<in> tags_at (cells (text_area (open_note_by_id s nid))) i)"
proof -
  let ?w2 = "tk_insert (tk_delete (text_area s) 0 (end_index (text_area s))) 0 (content r)"
  let ?s2 = "s\<lparr>current_note_id := nid, text_area := ?w2,
      current_format := default_format (s\<lparr>current_note_id := nid\<rparr>)\<rparr>"
  let ?x = "load_images ?s2 (images r)"
  from assms(2) have "cells (tk_delete (text_area s) 0 (end_index (text_area s))) =
      [(Ch newline, {})]"
    by (simp add: wf_widget_def tk_delete_all)
  then have c2: "cells ?w2 = map (\<lambda>c. (Ch c, {})) (content r) @ [(Ch newline, {})]"
    by (rule cells_tk_insert_empty)
  have ta: "text_area (open_note_by_id s nid) =
      text_area (load_formatting ?x (formatting r))"
    using assms(1) by (rule text_area_open_note_by_id)
  have pl: "text_area (open_note_by_id (without_formatting s) nid) = text_area ?x"
    using assms(1) by (rule text_area_open_without_formatting)
  have mf: "map fst (cells (text_area (open_note_by_id s nid))) = map fst (cells (text_area ?x))"
    by (simp only: ta map_fst_load_formatting)
  have 1: "status (open_note_by_id s nid) = ''Opened note: '' @ title r"
    using assms(1) by (rule status_open_note_by_id)
  have 2: "map fst (cells (text_area (open_note_by_id s nid))) =
      map fst (cells (text_area (open_note_by_id (without_formatting s) nid)))"
    by (simp only: mf pl)
  have 3: "no_images (images r) \<longrightarrow>
      tk_get (text_area (open_note_by_id s nid)) 0
        (end_index (text_area (open_note_by_id s nid))) = content r @ [newline]"
  proof
    assume "no_images (images r)"
    then have "text_area ?x = ?w2"
      by (simp add: load_images_no_images)
    then have "cells_text (cells (text_area (open_note_by_id s nid))) = cells_text (cells ?w2)"
      by (simp add: ta load_formatting_text)
    also have "\<dots> = content r @ [newline]"
      by (simp add: c2 cells_text_append cells_text_plain) (simp add: cells_text_def)
    finally show "tk_get (text_area (open_note_by_id s nid)) 0
        (end_index (text_area (open_note_by_id s nid))) = content r @ [newline]"
      by (simp add: tk_get_all)
  qed
  have 4: "formatting r = Malformed \<longrightarrow>
      untagged (cells (text_area (open_note_by_id s nid))) \<and>
      formatting_data (open_note_by_id s nid) = JObj [] \<and>
      last (console (open_note_by_id s nid)) = ''Error applying formatting''"
  proof
    assume m: "formatting r = Malformed"
    have "untagged (cells ?w2)" by (simp add: c2 untagged_def list_all_iff)
    then have "untagged (cells (text_area ?s2))" by simp
    then have "untagged (cells (text_area ?x))"
      by (rule untagged_load_images)
    then have a: "untagged (cells (text_area (open_note_by_id s nid)))"
      by (simp add: ta m load_formatting_def print_error_def)
    have b: "formatting_data (open_note_by_id s nid) = JObj []"
      using assms(1) by (simp add: open_note_by_id_def Let_def animate_status_bar_def m
            load_formatting_def print_error_def)
    have "console (open_note_by_id s nid) = console ?x @ [''Error applying formatting'']"
      by (simp only: console_open_note_by_id [OF assms(1)] m console_load_formatting_malformed)
    then have c: "last (console (open_note_by_id s nid)) = ''Error applying formatting''"
      by simp
    from a b c show "untagged (cells (text_area (open_note_by_id s nid))) \<and>
      formatting_data (open_note_by_id s nid) = JObj [] \<and>
      last (console (open_note_by_id s nid)) = ''Error applying formatting''" by (intro conjI)
  qed
  have 5: "\<forall>kvs ps rest p i.
            formatting r = Json (JObj kvs) \<and>
            map_of kvs ''bold'' = Some (JArr (map range_json ps @ rest)) \<and> p \<in> set ps \<and>
            offset_of (cells (text_area (open_note_by_id s nid))) (fst p) \<le> i \<and>
            i < offset_of (cells (text_area (open_note_by_id s nid))) (snd p) \<and>
            i < length (cells (text_area (open_note_by_id s nid))) \<longrightarrow>
            ''bold'' \<in> tags_at (cells (text_area (open_note_by_id s nid))) i"
  proof (intro allI impI, elim conjE)
    fix kvs ps rest p i
    assume f: "formatting r = Json (JObj kvs)"
      and b: "map_of kvs ''bold'' = Some (JArr (map range_json ps @ rest))"
      and p: "p \<in> set ps"
      and lo: "offset_of (cells (text_area (open_note_by_id s nid))) (fst p) \<le> i"
      and hi: "i < offset_of (cells (text_area (open_note_by_id s nid))) (snd p)"
      and le: "i < length (cells (text_area (open_note_by_id s nid)))"
    from b have "kvs \<noteq> []" by auto
    then have ne: "JObj kvs \<noteq> JObj []" by simp
    have t: "text_area (open_note_by_id s nid) = result (apply_formatting (JObj kvs) (text_area ?x))"
      by (simp only: ta f text_area_load_formatting_json [OF ne])
    have o: "offset_of (cells (text_area (open_note_by_id s nid))) y =
        offset_of (cells (text_area ?x)) y" for y
      using mf by (rule offset_of_cong)
    from mf have "length (map fst (cells (text_area (open_note_by_id s nid)))) =
        length (map fst (cells (text_area ?x)))" by (rule arg_cong)
    then have l: "length (cells (text_area (open_note_by_id s nid))) = length (cells (text_area ?x))"
      by (simp only: length_map)
    from lo have lo': "offset_of (cells (text_area ?x)) (fst p) \<le> i" by (simp only: o)
    from hi have hi': "i < offset_of (cells (text_area ?x)) (snd p)" by (simp only: o)
    from le have le': "i < length (cells (text_area ?x))" by (simp only: l)
    from apply_formatting_bold_prefix [OF b p lo' hi' le']
    show "''bold'' \<in> tags_at (cells (text_area (open_note_by_id s nid))) i"
      by (simp only: t)
  qed
  from 1 2 3 4 5 show ?thesis by (intro conjI)
qed


theorem open_note_with_corrupt_formatting_witness:
  "tk_get (text_area (open_note_by_id (toggle_bold (init_app [unparsable_row] default_prefs []))
      (Some 1))) 0 4 = ''ab'' @ [newline, newline] \<and>
   untagged (cells (text_area
     (open_note_by_id (toggle_bold (init_app [unparsable_row] default_prefs [])) (Some 1)))) \<and>
   status (open_note_by_id (toggle_bold (init_app [unparsable_row] default_prefs [])) (Some 1)) =
     ''Opened note: t'' \<and>
   last (console
     (open_note_by_id (toggle_bold (init_app [unparsable_row] default_prefs [])) (Some 1))) =
     ''Error applying formatting'' \<and>
   map fst (cells (text_area
     (open_note_by_id (init_app [pictured_row] default_prefs []) (Some 1)))) =
     [Ch CHR ''x'', Img ''0'', Ch CHR ''y'', Ch newline, Ch newline] \<and>
   ''bold'' \<in> tags_at (cells (text_area
     (open_note_by_id (init_app [misshapen_row] default_prefs []) (Some 1)))) 0"
proof -
  let ?s = "toggle_bold (init_app [unparsable_row] default_prefs [])"
  have a: "get_note_content (notes_table ?s) (Some 1) = Some unparsable_row"
    by code_simp
  have b: "wf_widget (text_area ?s)" by code_simp
  have c: "no_images (images unparsable_row)" "formatting unparsable_row = Malformed"
    "title unparsable_row = ''t''" "content unparsable_row = ''ab'' @ [newline]"
    by (simp_all add: unparsable_row_def)
  have d: "end_index (text_area (open_note_by_id ?s (Some 1))) = 4"
    by code_simp
  from open_note_with_corrupt_formatting [OF a b] c d
  have 1: "tk_get (text_area (open_note_by_id ?s (Some 1))) 0 4 = ''ab'' @ [newline, newline] \<and>
      untagged (cells (text_area (open_note_by_id ?s (Some 1)))) \<and>
      status (open_note_by_id ?s (Some 1)) = ''Opened note: t'' \<and>
      last (console (open_note_by_id ?s (Some 1))) = ''Error applying formatting''"
    by simp
  let ?p = "init_app [pictured_row] default_prefs []"
  have e: "get_note_content (notes_table ?p) (Some 1) = Some pictured_row"
    by code_simp
  have f: "wf_widget (text_area ?p)" by code_simp
  have g: "map fst (cells (text_area (open_note_by_id (without_formatting ?p) (Some 1)))) =
      [Ch CHR ''x'', Img ''0'', Ch CHR ''y'', Ch newline, Ch newline]"
    by code_simp
  from open_note_with_corrupt_formatting [OF e f] g
  have 2: "map fst (cells (text_area (open_note_by_id ?p (Some 1)))) =
      [Ch CHR ''x'', Img ''0'', Ch CHR ''y'', Ch newline, Ch newline]"
    by simp
  let ?m = "init_app [misshapen_row] default_prefs []"
  let ?cs = "cells (text_area (open_note_by_id ?m (Some 1)))"
  have h: "get_note_content (notes_table ?m) (Some 1) = Some misshapen_row"
    by code_simp
  have i: "wf_widget (text_area ?m)" by code_simp
  have j: "formatting misshapen_row =
      Json (JObj [(''bold'', JArr [JArr [JPos 1 0, JPos 1 1]]), (''italic'', JNum 5)])"
    by (simp add: misshapen_row_def)
  have k: "map_of [(''bold'', JArr [JArr [JPos 1 0, JPos 1 1]]), (''italic'', JNum 5)] ''bold'' =
      Some (JArr (map range_json [((1, 0), (1, 1))] @ []))"
    by (simp add: range_json_def)
  have l: "offset_of ?cs (fst ((1, 0), (1, 1))) \<le> 0" "0 < offset_of ?cs (snd ((1, 0), (1, 1)))"
    "0 < length ?cs"
    by code_simp+
  note t = open_note_with_corrupt_formatting [OF h i, THEN conjunct2, THEN conjunct2,
      THEN conjunct2, THEN conjunct2, rule_format]
  have 3: "''bold'' \<in> tags_at ?cs 0"
  proof (rule t, intro conjI)
    show "formatting misshapen_row =
        Json (JObj [(''bold'', JArr [JArr [JPos 1 0, JPos 1 1]]), (''italic'', JNum 5)])"
      by (rule j)
    show "map_of [(''bold'', JArr [JArr [JPos 1 0, JPos 1 1]]), (''italic'', JNum 5)] ''bold'' =
        Some (JArr (map range_json [((1, 0), (1, 1))] @ []))"
      by (rule k)
    show "((1, 0), (1, 1)) \<in> set [((1, 0), (1, 1))]" by simp
    show "offset_of ?cs (fst ((1, 0), (1, 1))) \<le> 0" by (rule l(1))
    show "0 < offset_of ?cs (snd ((1, 0), (1, 1)))" by (rule l(2))
    show "0 < length ?cs" by (rule l(3))
  qed
  from 1 2 3 show ?thesis by (intro conjI) simp_all
qed

text \<open>
  Claim C6 as stated fails for a formatting column that is JSON of another shape: the
  bold range is applied before the loop over the italic entry raises.
\<close>

theorem misshapen_formatting_leaves_styles:
  "formatting misshapen_row =
     Json (JObj [(''bold'', JArr [JArr [JPos 1 0, JPos 1 1]]), (''italic'', JNum 5)]) \<and>
   tags_at (cells (text_area
     (open_note_by_id (init_app [misshapen_row] default_prefs []) (Some 1)))) 0 = {''bold''} \<and>
   \<not> untagged (cells (text_area
     (open_note_by_id (init_app [misshapen_row] default_prefs []) (Some 1)))) \<and>
   console (open_note_by_id (init_app [misshapen_row] default_prefs []) (Some 1)) =
     [''Error applying formatting'']"
  by code_simp

section \<open>Which characters an insertion formats\<close>

lemma tags_at_cond:
  "tags_at (cells (if c then tag_add t a b w else w)) j =
     (if a \<le> j \<and> j < b \<and> j < length (cells w)
      then tags_at (cells w) j \<union> (if c then {t} else {})
      else tags_at (cells w) j)"
  by (simp add: tags_at_tag_add)

lemma length_cond: "length (cells (if c then tag_add t a b w else w)) = length (cells w)"
  by simp

lemma tags_at_apply_current_formatting:
  "tags_at (cells (text_area (apply_current_formatting s a b))) j =
     (if a \<le> j \<and> j < b \<and> j < length (cells (text_area s))
      then tags_at (cells (text_area s)) j \<union> active_tags s
      else tags_at (cells (text_area s)) j)"
proof -
  define f where "f = current_format s"
  define w1 where "w1 = (if bold f then tag_add ''bold'' a b (text_area s) else text_area s)"
  define w2 where "w2 = (if italic f then tag_add ''italic'' a b w1 else w1)"
  define w3 where "w3 = (if underline f then tag_add ''underline'' a b w2 else w2)"
  define w4 where "w4 = (if cur_size f \<noteq> font_size (settings s)
      then tag_add (size_tag (cur_size f)) a b w3 else w3)"
  define w5 where "w5 = (if cur_family f \<noteq> font_family (settings s)
      then tag_add (family_tag (cur_family f)) a b w4 else w4)"
  have t: "text_area (apply_current_formatting s a b) = w5"
    by (simp add: apply_current_formatting_def Let_def w5_def w4_def w3_def w2_def w1_def f_def)
  have l: "length (cells w1) = length (cells (text_area s))" "length (cells w2) = length (cells w1)"
    "length (cells w3) = length (cells w2)" "length (cells w4) = length (cells w3)"
    unfolding w1_def w2_def w3_def w4_def by (rule length_cond)+
  show ?thesis
  proof (cases "a \<le> j \<and> j < b \<and> j < length (cells (text_area s))")
    case True
    have "tags_at (cells w5) j =
        tags_at (cells (text_area s)) j \<union> (if bold f then {''bold''} else {}) \<union>
        (if italic f then {''italic''} else {}) \<union>
        (if underline f then {''underline''} else {}) \<union>
        (if cur_size f \<noteq> font_size (settings s) then {size_tag (cur_size f)} else {}) \<union>
        (if cur_family f \<noteq> font_family (settings s) then {family_tag (cur_family f)} else {})"
      unfolding w5_def tags_at_cond l w4_def w3_def w2_def w1_def using True by simp
    then show ?thesis
      using True by (simp add: t active_tags_def f_def Un_assoc)
  next
    case False
    have "tags_at (cells w5) j = tags_at (cells (text_area s)) j"
      unfolding w5_def tags_at_cond l w4_def w3_def w2_def w1_def using False by auto
    with False show ?thesis by (auto simp: t)
  qed
qed

lemma user_insert_unfold:
  assumes "i < length (cells (text_area s))" "str \<noteq> []"
  shows "user_insert s i str =
     apply_current_formatting
       (s\<lparr>text_area :=
            (text_area s)
            \<lparr>cells := take i (cells (text_area s)) @
                 map (\<lambda>c. (Ch c, inherited (cells (text_area s)) i)) str @
                 drop i (cells (text_area s)),
             insert_mark := i + length str, modified := False\<rparr>\<rparr>)
       (i + length str - 1) (i + length str)"
proof -
  from assms(1) have m: "min i (length (cells (text_area s)) - Suc 0) = i" by simp
  from assms(2) have l: "0 < length str" by simp
  show ?thesis
    using l by (simp add: user_insert_def set_cursor_def tk_insert_def insert_cells_def Let_def m
          on_text_modified_def comp_def)
qed

lemma paste_text_is_insert:
  "do_paste s (ClipText str) = on_text_modified
     (s\<lparr>text_area := tk_insert (text_area s) (insert_mark (text_area s)) str\<rparr>)"
  by (simp add: do_paste_def paste_from_clipboard_def)

lemma active_tags_text_area [simp]: "active_tags (s\<lparr>text_area := w\<rparr>) = active_tags s"
  by (simp add: active_tags_def)

text \<open>
  Claim C4 (the program does not do what the claim says). When a text of one or more
  characters is inserted, \<^verbatim>\<open>on_text_modified\<close> applies the toggle state to the
  position before the insert mark only, that is to the last character inserted. The
  characters before it get what every insertion gets from the widget: the tags their
  two neighbours have in common.
\<close>

theorem insertion_formats_last_character_only:
  assumes "i < length (cells (text_area s))" "str \<noteq> []"
  shows "\<forall>j. i \<le> j \<and> j < i + length str \<longrightarrow>
           tags_at (cells (text_area (user_insert s i str))) j =
             (if j = i + length str - 1
              then inherited (cells (text_area s)) i \<union> active_tags s
              else inherited (cells (text_area s)) i)"
proof (intro allI impI)
  fix j
  assume j: "i \<le> j \<and> j < i + length str"
  let ?cs = "take i (cells (text_area s)) @
      map (\<lambda>c. (Ch c, inherited (cells (text_area s)) i)) str @ drop i (cells (text_area s))"
  from assms(1) have li: "length (take i (cells (text_area s))) = i" by simp
  from j have ji: "j - i < length str" by auto
  from j li ji have n: "?cs ! j = (Ch (str ! (j - i)), inherited (cells (text_area s)) i)"
    by (simp add: nth_append)
  from assms(1) j have jl: "j < length ?cs" by simp
  with n have t: "tags_at ?cs j = inherited (cells (text_area s)) i"
    by (simp add: tags_at_def)
  from j jl have c: "(i + length str - 1 \<le> j \<and> j < i + length str \<and> j < length ?cs) =
      (j = i + length str - 1)"
    by auto
  have "tags_at (cells (text_area (user_insert s i str))) j =
      (if i + length str - 1 \<le> j \<and> j < i + length str \<and> j < length ?cs
       then tags_at ?cs j \<union> active_tags s else tags_at ?cs j)"
    by (simp add: user_insert_unfold [OF assms] tags_at_apply_current_formatting)
  then show "tags_at (cells (text_area (user_insert s i str))) j =
      (if j = i + length str - 1
       then inherited (cells (text_area s)) i \<union> active_tags s
       else inherited (cells (text_area s)) i)"
    by (simp only: c t)
qed

theorem insertion_formats_last_character_only_witness:
  "tags_at (cells (text_area (user_insert (toggle_bold fresh_app) 0 ''hi''))) 0 = {} \<and>
   tags_at (cells (text_area (user_insert (toggle_bold fresh_app) 0 ''hi''))) 1 = {''bold''} \<and>
   tag_ranges ''bold'' (text_area (do_paste (toggle_bold fresh_app) (ClipText ''hi''))) =
     [(1, 3)] \<and>
   tag_ranges ''bold''
     (text_area (user_insert (user_insert (toggle_bold fresh_app) 0 ''h'') 1 ''i'')) =
     [(0, 3)] \<and>
   tag_ranges ''bold''
     (text_area (user_insert
        (toggle_bold (user_insert (user_insert (toggle_bold fresh_app) 0 ''h'') 1 ''i''))
        2 ''!'')) = [(0, 2)]"
proof -
  let ?s = "toggle_bold fresh_app"
  have a: "0 < length (cells (text_area ?s))" by code_simp
  have b: "''hi'' \<noteq> []" by simp
  have c: "inherited (cells (text_area ?s)) 0 = {}" "active_tags ?s = {''bold''}"
    by code_simp+
  note t = insertion_formats_last_character_only [OF a b, rule_format]
  have 0: "tags_at (cells (text_area (user_insert ?s 0 ''hi''))) 0 = {}"
    using t [of 0] by (simp add: c)
  have 1: "tags_at (cells (text_area (user_insert ?s 0 ''hi''))) 1 = {''bold''}"
    using t [of 1] by (simp add: c)
  have 2: "tag_ranges ''bold'' (text_area (do_paste ?s (ClipText ''hi''))) = [(1, 3)]"
    by code_simp
  have 3: "tag_ranges ''bold'' (text_area (user_insert (user_insert ?s 0 ''h'') 1 ''i'')) =
      [(0, 3)]"
    by code_simp
  have 4: "tag_ranges ''bold''
     (text_area (user_insert (toggle_bold (user_insert (user_insert ?s 0 ''h'') 1 ''i''))
        2 ''!'')) = [(0, 2)]"
    by code_simp
  from 0 1 2 3 4 show ?thesis by (intro conjI)
qed

section \<open>Changing the font size\<close>

lemma length_fold_remove:
  "length (cells (fold (\<lambda>sz w. tag_remove (g sz) a b w) szs w)) = length (cells w)"
  by (induction szs arbitrary: w) simp_all

lemma tags_at_fold_remove:
  "tags_at (cells (fold (\<lambda>sz w. tag_remove (g sz) a b w) szs w)) j =
     (if a \<le> j \<and> j < b then tags_at (cells w) j - g ` set szs else tags_at (cells w) j)"
proof (induction szs arbitrary: w)
  case Nil
  then show ?case by simp
next
  case (Cons sz szs)
  show ?case
    by (simp add: Cons.IH tags_at_tag_remove) blast
qed

text \<open>
  Claim C8 (the program does not do what the claim says, without a selection). For a
  size box holding a number: with a selection, the settings and the settings table
  stay as they are and the size tag covers the selection and whatever it covered before;
  without a selection no tag changes, but the default is changed and stored only if
  the widget's font option names a named font. In the widget as the program creates
  it, it does not: \<^verbatim>\<open>font.nametofont\<close> raises, the handler prints the error, and
  only the toggle state has the new size.
\<close>

theorem change_font_size_effects:
  assumes "py_int box = Some n"
  shows "(selection (text_area s) = None \<longrightarrow>
            cells (text_area (change_font_size s box)) = cells (text_area s) \<and>
            cur_size (current_format (change_font_size s box)) = n \<and>
            (text_font_named s \<longrightarrow>
               font_size (settings (change_font_size s box)) = n \<and>
               font_size (settings_table (change_font_size s box)) = n) \<and>
            (\<not> text_font_named s \<longrightarrow>
               settings (change_font_size s box) = settings s \<and>
               settings_table (change_font_size s box) = settings_table s \<and>
               console (change_font_size s box) = console s @ [''Error in change_font_size''])) \<and>
         (\<forall>a b. selection (text_area s) = Some (a, b) \<longrightarrow>
            settings (change_font_size s box) = settings s \<and>
            settings_table (change_font_size s box) = settings_table s \<and>
            (\<forall>j < length (cells (text_area s)).
               (size_tag n \<in> tags_at (cells (text_area (change_font_size s box))) j) =
               (a \<le> j \<and> j < b \<or> size_tag n \<in> tags_at (cells (text_area s)) j)))"
proof -
  have 1: "selection (text_area s) = None \<longrightarrow>
            cells (text_area (change_font_size s box)) = cells (text_area s) \<and>
            cur_size (current_format (change_font_size s box)) = n \<and>
            (text_font_named s \<longrightarrow>
               font_size (settings (change_font_size s box)) = n \<and>
               font_size (settings_table (change_font_size s box)) = n) \<and>
            (\<not> text_font_named s \<longrightarrow>
               settings (change_font_size s box) = settings s \<and>
               settings_table (change_font_size s box) = settings_table s \<and>
               console (change_font_size s box) = console s @ [''Error in change_font_size''])"
    using assms
    by (simp add: change_font_size_def Let_def animate_status_bar_def print_error_def)
  have 2: "\<forall>a b. selection (text_area s) = Some (a, b) \<longrightarrow>
            settings (change_font_size s box) = settings s \<and>
            settings_table (change_font_size s box) = settings_table s \<and>
            (\<forall>j < length (cells (text_area s)).
               (size_tag n \<in> tags_at (cells (text_area (change_font_size s box))) j) =
               (a \<le> j \<and> j < b \<or> size_tag n \<in> tags_at (cells (text_area s)) j))"
  proof (intro allI impI)
    fix a b
    assume sel: "selection (text_area s) = Some (a, b)"
    let ?w1 = "fold (\<lambda>sz w. tag_remove (size_tag sz) a b w) size_list (text_area s)"
    have ta: "text_area (change_font_size s box) = tag_add (size_tag n) a b ?w1"
      using assms sel by (simp add: change_font_size_def Let_def animate_status_bar_def)
    have st: "settings (change_font_size s box) = settings s"
      "settings_table (change_font_size s box) = settings_table s"
      using assms sel by (simp_all add: change_font_size_def Let_def animate_status_bar_def)
    have "\<forall>j < length (cells (text_area s)).
        (size_tag n \<in> tags_at (cells (text_area (change_font_size s box))) j) =
        (a \<le> j \<and> j < b \<or> size_tag n \<in> tags_at (cells (text_area s)) j)"
      by (auto simp: ta tags_at_tag_add tags_at_fold_remove length_fold_remove)
    with st show "settings (change_font_size s box) = settings s \<and>
            settings_table (change_font_size s box) = settings_table s \<and>
            (\<forall>j < length (cells (text_area s)).
               (size_tag n \<in> tags_at (cells (text_area (change_font_size s box))) j) =
               (a \<le> j \<and> j < b \<or> size_tag n \<in> tags_at (cells (text_area s)) j))"
      by (intro conjI)
  qed
  from 1 2 show ?thesis by (intro conjI)
qed

theorem change_font_size_effects_witness:
  "settings (change_font_size fresh_app ''18'') = default_prefs \<and>
   settings_table (change_font_size fresh_app ''18'') = default_prefs \<and>
   console (change_font_size fresh_app ''18'') = [''Error in change_font_size''] \<and>
   cur_size (current_format (change_font_size fresh_app ''18'')) = 18 \<and>
   tags_at (cells (text_area (user_insert (change_font_size fresh_app ''18'') 0 ''x''))) 0 =
     {''size_18''} \<and>
   tag_ranges ''size_18''
     (text_area (change_font_size (user_select (user_insert fresh_app 0 ''hello'') 1 4) ''18'')) =
     [(1, 4)] \<and>
   settings (change_font_size (user_select (user_insert fresh_app 0 ''hello'') 1 4) ''18'') =
     default_prefs"
proof -
  have a: "py_int ''18'' = Some 18" by code_simp
  have b: "selection (text_area fresh_app) = None" "\<not> text_font_named fresh_app"
    "settings fresh_app = default_prefs" "settings_table fresh_app = default_prefs"
    "console fresh_app = []"
    by code_simp+
  from change_font_size_effects [OF a, of fresh_app] b
  have 1: "settings (change_font_size fresh_app ''18'') = default_prefs \<and>
   settings_table (change_font_size fresh_app ''18'') = default_prefs \<and>
   console (change_font_size fresh_app ''18'') = [''Error in change_font_size''] \<and>
   cur_size (current_format (change_font_size fresh_app ''18'')) = 18"
    by simp
  have 2: "tags_at (cells (text_area (user_insert (change_font_size fresh_app ''18'') 0 ''x''))) 0 =
     {''size_18''}"
    by code_simp
  have 3: "tag_ranges ''size_18''
     (text_area (change_font_size (user_select (user_insert fresh_app 0 ''hello'') 1 4) ''18'')) =
     [(1, 4)]"
    by code_simp
  have 4: "settings (change_font_size (user_select (user_insert fresh_app 0 ''hello'') 1 4) ''18'') =
     default_prefs"
    by code_simp
  from 1 2 3 4 show ?thesis by simp
qed

section \<open>The widget stays well formed\<close>

text \<open>
  Whatever the user does, the widget ends with its line end and the insert mark is at one
  of its positions.
\<close>

lemma wf_new_widget: "wf_widget new_widget"
  by (simp add: wf_widget_def new_widget_def)

lemma wf_insert_cells:
  assumes "wf_widget w"
  shows "wf_widget (insert_cells w i es)"
proof -
  define cs where "cs = cells w"
  define p where "p = min i (length cs - 1)"
  from assms have ne: "cs \<noteq> []" and la: "fst (last cs) = Ch newline"
    and m: "insert_mark w < length cs"
    by (simp_all add: wf_widget_def cs_def)
  from ne have "0 < length cs" by simp
  then have p: "p < length cs" by (simp add: p_def min_less_iff_disj)
  then have d: "drop p cs \<noteq> []" by simp
  have c: "cells (insert_cells w i es) =
      take p cs @ map (\<lambda>e. (e, inherited cs p)) es @ drop p cs"
    by (simp add: insert_cells_def Let_def cs_def p_def)
  have k: "insert_mark (insert_cells w i es) =
      (if p \<le> insert_mark w then insert_mark w + length es else insert_mark w)"
    by (simp add: insert_cells_def Let_def cs_def p_def)
  have l: "last (cells (insert_cells w i es)) = last cs"
    using d by (simp add: c)
  have "insert_mark (insert_cells w i es) < length (cells (insert_cells w i es))"
    using m p by (simp add: c k)
  with l la d show ?thesis by (simp add: wf_widget_def c)
qed

lemma wf_tk_insert: "wf_widget w \<Longrightarrow> wf_widget (tk_insert w i s)"
  by (simp add: tk_insert_def wf_insert_cells)

lemma wf_tk_image_create: "wf_widget w \<Longrightarrow> wf_widget (tk_image_create w i k)"
  by (simp add: tk_image_create_def wf_insert_cells)

lemma wf_remove_cells:
  assumes "cs \<noteq> []" "fst (last cs) = Ch newline" "b < length cs"
    "insert_mark w < length cs"
  shows "wf_widget (remove_cells w a b cs)"
proof (cases "a < b")
  case False
  with assms show ?thesis by (simp add: wf_widget_def remove_cells_def)
next
  case True
  from assms(3) have d: "drop b cs \<noteq> []" by simp
  then have l: "last (take a cs @ drop b cs) = last cs" by simp
  have len: "length (take a cs @ drop b cs) = a + (length cs - b)"
    using True assms(3) by simp
  have "insert_mark (remove_cells w a b cs) < a + (length cs - b)"
    using True assms(3,4) by (auto simp: remove_cells_def)
  with True d l assms(2) len show ?thesis
    by (simp add: wf_widget_def remove_cells_def)
qed

lemma wf_tk_delete:
  assumes "wf_widget w"
  shows "wf_widget (tk_delete w a b)"
proof -
  let ?cs = "cells w"
  let ?n = "length ?cs"
  from assms have ne: "?cs \<noteq> []" and la: "fst (last ?cs) = Ch newline"
    and m: "insert_mark w < ?n"
    by (simp_all add: wf_widget_def)
  from ne have n0: "0 < ?n" by simp
  show ?thesis
  proof (cases "min b ?n \<le> min a ?n")
    case True
    with assms show ?thesis by (simp add: tk_delete_def Let_def)
  next
    case ab: False
    show ?thesis
    proof (cases "min b ?n = ?n")
      case False
      then have lt: "min b ?n < ?n" by simp
      have "tk_delete w a b = remove_cells w (min a ?n) (min b ?n) ?cs"
        using ab False by (simp only: tk_delete_def Let_def if_False)
      then show ?thesis by (simp only: wf_remove_cells [OF ne la lt m])
    next
      case True
      let ?cs' = "?cs[?n - 1 := (fst (?cs ! (?n - 1)), {})]"
      have 1: "?cs' \<noteq> []" using ne by simp
      have "last ?cs' = (fst (?cs ! (?n - 1)), {})"
        using ne by (simp add: last_conv_nth)
      moreover have "?cs ! (?n - 1) = last ?cs" using ne by (simp add: last_conv_nth)
      ultimately have 2: "fst (last ?cs') = Ch newline" using la by simp
      have 3: "?n - 1 < length ?cs'" using n0 by simp
      have 4: "insert_mark w < length ?cs'" using m by simp
      have "tk_delete w a b = remove_cells w
          (if 0 < min a ?n \<and> fst (?cs ! (min a ?n - 1)) = Ch newline
           then min a ?n - 1 else min a ?n) (?n - 1) ?cs'"
        using ab True by (simp only: tk_delete_def Let_def if_False if_True simp_thms)
      then show ?thesis by (simp only: wf_remove_cells [OF 1 2 3 4])
    qed
  qed
qed

lemma wf_same_shape:
  assumes "wf_widget w" "map fst (cells w') = map fst (cells w)"
    "insert_mark w' = insert_mark w"
  shows "wf_widget w'"
proof -
  from assms(2) have l: "length (cells w') = length (cells w)"
    by (metis length_map)
  from assms(1) have ne: "cells w \<noteq> []" by (simp add: wf_widget_def)
  with l have ne': "cells w' \<noteq> []" by auto
  have "fst (last (cells w')) = last (map fst (cells w'))"
    using ne' by (simp add: last_map)
  also have "\<dots> = fst (last (cells w))"
    using ne by (simp add: assms(2) last_map)
  finally show ?thesis using assms(1,3) l ne' by (simp add: wf_widget_def)
qed

lemma wf_tag_add: "wf_widget w \<Longrightarrow> wf_widget (tag_add t a b w)"
  by (erule wf_same_shape) (simp_all add: map_fst_tag_add, simp add: tag_add_def)

lemma map_fst_tag_remove: "map fst (cells (tag_remove t a b w)) = map fst (cells w)"
  by (simp add: tag_remove_def map_fst_upd_range)

lemma wf_tag_remove: "wf_widget w \<Longrightarrow> wf_widget (tag_remove t a b w)"
  by (erule wf_same_shape) (simp_all add: map_fst_tag_remove, simp add: tag_remove_def)

lemma wf_modified: "wf_widget (w\<lparr>modified := m\<rparr>) = wf_widget w"
  by (simp add: wf_widget_def)


lemma wf_place_image: "wf_widget w \<Longrightarrow> wf_widget (fst (place_image img_id b start w))"
proof (induction img_id b start w rule: place_image.induct)
  case (1 img_id b start_idx w)
  show ?case
  proof (cases "tk_search (marker img_id) start_idx w")
    case None
    with 1(2) show ?thesis by (simp add: place_image.simps)
  next
    case (Some i)
    show ?thesis
    proof (cases b)
      case Undecodable
      with Some 1(2) show ?thesis by (simp add: place_image.simps wf_tk_delete)
    next
      case (Picture p)
      have "wf_widget (tk_image_create (tk_delete w i (i + length (marker img_id))) i img_id)"
        using 1(2) by (simp add: wf_tk_delete wf_tk_image_create)
      from 1(1) [OF Some Picture this] Some Picture show ?thesis
        by (simp add: place_image.simps)
    qed
  qed
qed

lemma wf_place_images: "wf_widget w \<Longrightarrow> wf_widget (fst (place_images kvs w out))"
proof (induction kvs arbitrary: w out)
  case Nil
  then show ?case by simp
next
  case (Cons kv kvs)
  obtain k b where kv: "kv = (k, b)" by (cases kv)
  obtain w' r where p: "place_image k b 0 w = (w', r)" by (cases "place_image k b 0 w")
  from wf_place_image [OF Cons.prems, of k b 0] p have "wf_widget w'" by simp
  from Cons.IH [OF this] kv p show ?case by simp
qed

lemma wf_load_images: "wf_widget (text_area s) \<Longrightarrow> wf_widget (text_area (load_images s col))"
proof -
  assume w: "wf_widget (text_area s)"
  show ?thesis
  proof (cases col)
    case Null
    with w show ?thesis by (simp add: load_images_def)
  next
    case Malformed
    with w show ?thesis by (simp add: load_images_def print_error_def)
  next
    case (Json v)
    show ?thesis
    proof (cases v)
      case (ImgOther b)
      with Json w show ?thesis by (simp add: load_images_def print_error_def)
    next
      case (ImgDict kvs)
      obtain w' out where p: "place_images kvs (text_area s) (console s) = (w', out)"
        by (cases "place_images kvs (text_area s) (console s)")
      from wf_place_images [OF w, of kvs "console s"] p have "wf_widget w'" by simp
      with Json ImgDict p w show ?thesis
        by (simp add: load_images_def Let_def print_error_def split: option.splits)
    qed
  qed
qed

lemma insert_mark_tag_add [simp]: "insert_mark (tag_add t a b w) = insert_mark w"
  by (simp add: tag_add_def)

lemma insert_mark_apply_items:
  "insert_mark (result (apply_items tag xs w)) = insert_mark w"
  by (induction tag xs w rule: apply_items.induct)
    (auto split: option.splits prod.splits)


lemma insert_mark_apply_ranges:
  "insert_mark (result (apply_ranges tag v w)) = insert_mark w"
  by (cases v) (simp_all add: insert_mark_apply_items)

lemma insert_mark_then_do:
  assumes "insert_mark (result r) = insert_mark w"
    "\<And>w'. insert_mark (result (f w')) = insert_mark w'"
  shows "insert_mark (result (then_do r f)) = insert_mark w"
  using assms by (cases r) simp_all

lemma insert_mark_apply_key:
  "insert_mark (result (apply_key tag j w)) = insert_mark w"
  by (simp add: apply_key_def insert_mark_apply_ranges split: option.splits)

lemma insert_mark_apply_sizes:
  "insert_mark (result (apply_sizes kvs w)) = insert_mark w"
proof (induction kvs arbitrary: w)
  case Nil
  then show ?case by simp
next
  case (Cons kv kvs)
  obtain k v where kv: "kv = (k, v)" by (cases kv)
  show ?case
  proof (cases "py_int k")
    case None
    then show ?thesis by (simp add: kv)
  next
    case (Some n)
    have "insert_mark (result (then_do (apply_ranges (''size_'' @ k) v w) (apply_sizes kvs))) =
        insert_mark w"
      by (rule insert_mark_then_do) (simp_all add: insert_mark_apply_ranges Cons.IH)
    with Some show ?thesis by (simp add: kv)
  qed
qed

lemma insert_mark_apply_families:
  "insert_mark (result (apply_families kvs w)) = insert_mark w"
proof (induction kvs arbitrary: w)
  case Nil
  then show ?case by simp
next
  case (Cons kv kvs)
  obtain k v where kv: "kv = (k, v)" by (cases kv)
  have "insert_mark (result (then_do (apply_ranges (family_tag k) v w) (apply_families kvs))) =
      insert_mark w"
    by (rule insert_mark_then_do) (simp_all add: insert_mark_apply_ranges Cons.IH)
  then show ?case by (simp add: kv)
qed

lemma insert_mark_apply_dict:
  assumes "\<And>kvs w'. insert_mark (result (f kvs w')) = insert_mark w'"
  shows "insert_mark (result (apply_dict key f j w)) = insert_mark w"
  using assms by (simp add: apply_dict_def split: option.splits json.splits)

lemma insert_mark_apply_formatting:
  "insert_mark (result (apply_formatting j w)) = insert_mark w"
  unfolding apply_formatting_def
  by (intro insert_mark_then_do insert_mark_apply_key insert_mark_apply_dict
        insert_mark_apply_sizes insert_mark_apply_families)

lemma wf_apply_formatting:
  "wf_widget w \<Longrightarrow> wf_widget (result (apply_formatting j w))"
  by (erule wf_same_shape) (rule map_fst_apply_formatting, rule insert_mark_apply_formatting)

lemma wf_load_formatting:
  assumes "wf_widget (text_area s)"
  shows "wf_widget (text_area (load_formatting s col))"
proof (cases col)
  case Null
  with assms show ?thesis by (simp add: load_formatting_def)
next
  case Malformed
  with assms show ?thesis by (simp add: load_formatting_def print_error_def)
next
  case (Json j)
  from wf_apply_formatting [OF assms, of j] Json assms show ?thesis
    by (cases "apply_formatting j (text_area s)")
      (simp_all add: load_formatting_def Let_def print_error_def)
qed

lemma wf_open_note_by_id:
  assumes "wf_widget (text_area s)"
  shows "wf_widget (text_area (open_note_by_id s nid))"
proof (cases "get_note_content (notes_table s) nid")
  case None
  with assms show ?thesis by (simp add: open_note_by_id_def)
next
  case (Some r)
  let ?w = "tk_insert (tk_delete (text_area s) 0 (end_index (text_area s))) 0 (content r)"
  have "wf_widget ?w" using assms by (simp add: wf_tk_insert wf_tk_delete)
  then have "wf_widget (text_area (load_formatting
      (load_images (s\<lparr>current_note_id := nid, text_area := ?w,
          current_format := default_format (s\<lparr>current_note_id := nid\<rparr>)\<rparr>) (images r))
      (formatting r)))"
    by (intro wf_load_formatting wf_load_images) simp
  with Some show ?thesis
    by (simp add: open_note_by_id_def Let_def animate_status_bar_def)
qed

lemma wf_activate_tab:
  "wf_widget (text_area s) \<Longrightarrow> wf_widget (text_area (activate_tab s nid))"
  by (simp add: activate_tab_def wf_open_note_by_id)

lemma wf_add_tab:
  "wf_widget (text_area s) \<Longrightarrow> wf_widget (text_area (add_tab s nid t))"
  by (simp add: add_tab_def wf_activate_tab)

lemma wf_clear_editor:
  "wf_widget (text_area s) \<Longrightarrow> wf_widget (text_area (clear_editor s))"
  by (simp add: clear_editor_def wf_tk_delete)

lemma wf_close_tab:
  "wf_widget (text_area s) \<Longrightarrow> wf_widget (text_area (close_tab s nid))"
  by (simp add: close_tab_def Let_def wf_activate_tab wf_clear_editor)

lemma wf_new_note:
  "wf_widget (text_area s) \<Longrightarrow> wf_widget (text_area (new_note s))"
  by (simp add: new_note_def wf_add_tab wf_clear_editor animate_status_bar_def)

lemma wf_apply_current_formatting:
  "wf_widget (text_area s) \<Longrightarrow> wf_widget (text_area (apply_current_formatting s a b))"
  by (simp add: apply_current_formatting_def Let_def wf_tag_add)

lemma wf_on_text_modified:
  "wf_widget (text_area s) \<Longrightarrow> wf_widget (text_area (on_text_modified s))"
  by (simp add: on_text_modified_def Let_def wf_apply_current_formatting wf_modified)

lemma wf_toggles:
  assumes "wf_widget (text_area s)"
  shows "wf_widget (text_area (toggle_bold s))" "wf_widget (text_area (toggle_italic s))"
    "wf_widget (text_area (toggle_underline s))"
  using assms
  by (simp_all add: toggle_bold_def toggle_italic_def toggle_underline_def Let_def
      wf_tag_add wf_tag_remove)


lemma wf_fold_remove:
  "wf_widget w \<Longrightarrow> wf_widget (fold (\<lambda>sz w. tag_remove (g sz) a b w) szs w)"
  by (induction szs arbitrary: w) (simp_all add: wf_tag_remove)

lemma wf_change_font_size:
  "wf_widget (text_area s) \<Longrightarrow> wf_widget (text_area (change_font_size s box))"
  by (simp add: change_font_size_def Let_def animate_status_bar_def print_error_def
      wf_tag_add wf_fold_remove split: option.splits)

lemma wf_remove_tags_where:
  "wf_widget w \<Longrightarrow> wf_widget (remove_tags_where P ts a b w)"
  by (erule wf_same_shape) (simp_all add: remove_tags_where_def map_fst_upd_range)

lemma wf_change_font_family:
  "wf_widget (text_area s) \<Longrightarrow> wf_widget (text_area (change_font_family s fam))"
  by (simp add: change_font_family_def Let_def animate_status_bar_def print_error_def
      wf_tag_add wf_remove_tags_where split: option.splits)

lemma wf_insert_image:
  "wf_widget (text_area s) \<Longrightarrow> wf_widget (text_area (insert_image s chosen))"
  by (simp add: insert_image_def Let_def animate_status_bar_def print_error_def
      wf_tk_image_create wf_tk_insert wf_tk_delete split: chosen_file.splits option.splits)

lemma wf_paste_from_clipboard:
  "wf_widget (text_area s) \<Longrightarrow> wf_widget (text_area (paste_from_clipboard s clip))"
  by (simp add: paste_from_clipboard_def Let_def animate_status_bar_def print_error_def
      wf_tk_image_create wf_tk_insert wf_tk_delete split: clipboard.splits option.splits)

lemma text_area_save_formatting_data [simp]:
  "text_area (save_formatting_data s) = text_area s"
  by (simp add: save_formatting_data_def)

lemma wf_save_note:
  assumes "wf_widget (text_area s)"
  shows "wf_widget (text_area (save_note s answer now))"
proof -
  have a: "wf_widget (text_area (add_tab (x\<lparr>notes_table := rows, current_note_id := c\<rparr>) nid t))"
    if "wf_widget (text_area x)" for x rows c nid t
    using that by (intro wf_add_tab) simp
  have b: "wf_widget (text_area (add_tab (close_tab
      (x\<lparr>notes_table := rows, current_note_id := c\<rparr>) k) nid t))"
    if "wf_widget (text_area x)" for x rows c nid t k
    using that by (intro wf_add_tab wf_close_tab) simp
  from assms show ?thesis
    by (simp add: save_note_def Let_def animate_status_bar_def a b split: option.splits)
qed

lemma wf_delete_note:
  assumes "wf_widget (text_area s)"
  shows "wf_widget (text_area (delete_note s confirmed))"
proof -
  have a: "wf_widget (text_area (close_tab (x\<lparr>notes_table := rows, status := m\<rparr>) nid))"
    if "wf_widget (text_area x)" for x rows m nid
    using that by (intro wf_close_tab) simp
  from assms show ?thesis
    by (simp add: delete_note_def Let_def animate_status_bar_def a wf_clear_editor
        split: option.splits)
qed

lemma wf_set_cursor:
  "wf_widget (text_area s) \<Longrightarrow> wf_widget (text_area (set_cursor s i))"
  by (auto simp: set_cursor_def wf_widget_def)

lemma wf_user_insert:
  assumes "wf_widget (text_area s)"
  shows "wf_widget (text_area (user_insert s i str))"
proof -
  have "wf_widget (text_area (set_cursor s i))" using assms by (rule wf_set_cursor)
  then show ?thesis
    unfolding user_insert_def Let_def by (intro wf_on_text_modified) (simp add: wf_tk_insert)
qed

lemma wf_user_delete:
  "wf_widget (text_area s) \<Longrightarrow> wf_widget (text_area (user_delete s a b))"
  unfolding user_delete_def by (intro wf_on_text_modified) (simp add: wf_tk_delete)

lemma wf_user_select:
  "wf_widget (text_area s) \<Longrightarrow> wf_widget (text_area (user_select s a b))"
  by (simp add: user_select_def wf_tag_add wf_tag_remove)

lemma wf_perform:
  assumes "wf_widget (text_area s)"
  shows "wf_widget (text_area (perform s e))"
proof (cases e)
  case New
  with assms show ?thesis by (simp add: do_new_note_def wf_on_text_modified wf_new_note)
next
  case (Open nid t)
  with assms show ?thesis
    by (simp add: do_open_note_def open_note_in_tab_def wf_on_text_modified wf_add_tab)
next
  case (Save answer now)
  with assms show ?thesis by (simp add: do_save_note_def wf_on_text_modified wf_save_note)
next
  case (Delete confirmed)
  with assms show ?thesis by (simp add: wf_on_text_modified wf_delete_note)
next
  case (CloseTab nid)
  with assms show ?thesis by (simp add: wf_on_text_modified wf_close_tab)
next
  case (SwitchTab nid)
  with assms show ?thesis by (simp add: wf_on_text_modified wf_activate_tab)
next
  case (InsertImage chosen)
  with assms show ?thesis by (simp add: do_insert_image_def wf_on_text_modified wf_insert_image)
next
  case (Paste clip)
  with assms show ?thesis by (simp add: do_paste_def wf_on_text_modified wf_paste_from_clipboard)
next
  case (Type i str)
  with assms show ?thesis by (simp add: wf_user_insert)
next
  case (Erase a b)
  with assms show ?thesis by (simp add: wf_user_delete)
next
  case (Select a b)
  with assms show ?thesis by (simp add: wf_user_select)
next
  case Bold
  with assms show ?thesis by (simp add: wf_toggles)
next
  case Italic
  with assms show ?thesis by (simp add: wf_toggles)
next
  case Underline
  with assms show ?thesis by (simp add: wf_toggles)
next
  case (FontSize box)
  with assms show ?thesis by (simp add: wf_change_font_size)
next
  case (FontFamily fam)
  with assms show ?thesis by (simp add: wf_change_font_family)
qed

lemma wf_run:
  "wf_widget (text_area s) \<Longrightarrow> wf_widget (text_area (run s evs))"
  unfolding run_def by (induction evs arbitrary: s) (simp_all add: wf_perform)

lemma wf_reachable: "wf_widget (text_area (run (init_app rows p fams) evs))"
  by (rule wf_run) (simp add: init_app_def wf_new_widget)

section \<open>A save after the first save of a session\<close>

lemma on_text_modified_keeps:
  "notes_table (on_text_modified s) = notes_table s"
  "current_note_id (on_text_modified s) = current_note_id s"
  "active_tab (on_text_modified s) = active_tab s"
  "status (on_text_modified s) = status s"
  by (simp_all add: on_text_modified_def apply_current_formatting_def Let_def)

lemma map_fst_on_text_modified:
  "map fst (cells (text_area (on_text_modified s))) = map fst (cells (text_area s))"
  by (simp add: on_text_modified_def apply_current_formatting_def Let_def map_fst_tag_add)

lemma tk_get_on_text_modified:
  "tk_get (text_area (on_text_modified s)) 0 (end_index (text_area (on_text_modified s))) =
   tk_get (text_area s) 0 (end_index (text_area s))"
  by (simp add: tk_get_all cells_text_map_fst [OF map_fst_on_text_modified])

lemma add_tab_absent:
  "get_note_content (notes_table s) nid = None \<Longrightarrow> text_area (add_tab s nid t) = text_area s"
  by (simp add: add_tab_def activate_tab_def has_tab_def open_note_by_id_def)

lemma update_note_in_db_absent:
  "\<forall>r \<in> set rows. note_id r \<noteq> nid \<Longrightarrow> update_note_in_db rows nid t c imgs fmt now = rows"
  unfolding update_note_in_db_def by (rule map_idI) simp

lemma next_rowid_positive:
  assumes "\<forall>r \<in> set rows. 0 < note_id r"
  shows "0 < next_rowid rows"
proof (cases "rows = []")
  case True
  then show ?thesis by (simp add: next_rowid_def)
next
  case False
  then have "Max (set (map note_id rows)) \<in> set (map note_id rows)"
    by (intro Max_in) auto
  with assms have "0 < Max (set (map note_id rows))" by auto
  with False show ?thesis by (simp add: next_rowid_def)
qed

lemma save_note_first_state:
  assumes "strip (tk_get (text_area s) 0 (end_index (text_area s))) \<noteq> []" "t \<noteq> []"
    "current_note_id s = None" "active_tab s = None" "\<forall>r \<in> set (notes_table s). 0 < note_id r"
  shows "current_note_id (save_note s (Some t) now) = Some 0"
    "text_area (save_note s (Some t) now) = text_area s"
    "\<forall>r \<in> set (notes_table (save_note s (Some t) now)). note_id r \<noteq> 0"
proof -
  let ?rows = "save_note_to_db (notes_table s) t (tk_get (text_area s) 0 (end_index (text_area s)))
        (images_data s) (formatting_data (save_formatting_data s)) now"
  have tab: "notes_table (save_note s (Some t) now) = ?rows"
    using assms(1-3) by (rule save_note_first_table)
  from assms(5) next_rowid_positive [OF assms(5)]
  have no0: "\<forall>r \<in> set ?rows. note_id r \<noteq> 0"
    by (auto simp: save_note_to_db_def insert_note_def)
  then show "\<forall>r \<in> set (notes_table (save_note s (Some t) now)). note_id r \<noteq> 0"
    by (simp only: tab)
  show "current_note_id (save_note s (Some t) now) = Some 0"
    using assms(1-3)
    by (simp add: save_note_def Let_def animate_status_bar_def add_tab_keeps
          save_formatting_data_keeps sqlite3_connect_def)
  from no0 have "find (\<lambda>r. note_id r = 0) ?rows = None" by (simp add: find_None_iff)
  then have g: "get_note_content ?rows (Some 0) = None" by (simp add: get_note_content_def)
  let ?s2 = "(save_formatting_data s)\<lparr>notes_table := ?rows, current_note_id := Some 0\<rparr>"
  have "get_note_content (notes_table ?s2) (Some 0) = None" using g by simp
  from add_tab_absent [OF this, of t]
  have "text_area (add_tab ?s2 (Some 0) t) = text_area s"
    by (simp add: save_formatting_data_keeps)
  then show "text_area (save_note s (Some t) now) = text_area s"
    using assms(1-4)
    by (simp add: save_note_def Let_def animate_status_bar_def save_formatting_data_keeps
          save_note_to_db_def sqlite3_connect_def)
qed

text \<open>
  Claim C9 (the program does not do what the claim says). The first save of an unsaved
  note appends a row stamped with the time of the save, and
  \<^verbatim>\<open>update_note_in_db\<close> stamps the row that has the id it is given. But the id that
  the first save leaves in \<^verbatim>\<open>current_note_id\<close> is 0, which no row has: the next
  save of the session reports the note updated and changes no row, so that the note
  keeps the time stamp, and the content, of its first save. The listing itself holds
  the id and title of every row, each once, in an order in which \<open>updated_at\<close> never
  increases.
\<close>

theorem save_after_first_save_stamps_no_row:
  assumes "strip (tk_get (text_area s) 0 (end_index (text_area s))) \<noteq> []" "t \<noteq> []" "u \<noteq> []"
    "current_note_id s = None" "active_tab s = None" "\<forall>r \<in> set (notes_table s). 0 < note_id r"
  shows "butlast (notes_table (do_save_note s (Some t) now)) = notes_table s \<and>
         updated_at (last (notes_table (do_save_note s (Some t) now))) = now \<and>
         notes_table (do_save_note (do_save_note s (Some t) now) (Some u) later) =
           notes_table (do_save_note s (Some t) now) \<and>
         status (do_save_note (do_save_note s (Some t) now) (Some u) later) =
           ''Note '' @ quoted u @ '' updated successfully'' \<and>
         (\<forall>r \<in> set (update_note_in_db rows nid t c imgs fmt now).
            note_id r = nid \<longrightarrow> updated_at r = now) \<and>
         (\<exists>rs. get_notes_from_db rows = map (\<lambda>r. (note_id r, title r)) rs \<and>
               mset rs = mset rows \<and>
               sorted_wrt (\<lambda>a b. updated_at b \<le> updated_at a) rs)"
proof -
  let ?s1 = "save_note s (Some t) now"
  let ?d1 = "do_save_note s (Some t) now"
  have tab: "notes_table ?d1 =
      save_note_to_db (notes_table s) t (tk_get (text_area s) 0 (end_index (text_area s)))
        (images_data s) (formatting_data (save_formatting_data s)) now"
    using save_note_first_table [OF assms(1,2,4)]
    by (simp add: do_save_note_def on_text_modified_keeps)
  have 1: "butlast (notes_table ?d1) = notes_table s"
    by (simp add: tab save_note_to_db_def insert_note_def)
  have 2: "updated_at (last (notes_table ?d1)) = now"
    by (simp add: tab save_note_to_db_def insert_note_def)
  note f = save_note_first_state [OF assms(1,2,4,5,6), of now]
  have cur: "current_note_id ?d1 = Some 0"
    by (simp add: do_save_note_def on_text_modified_keeps f(1))
  have nb: "strip (tk_get (text_area ?d1) 0 (end_index (text_area ?d1))) \<noteq> []"
    using assms(1) by (simp add: do_save_note_def tk_get_on_text_modified f(2))
  have no0: "\<forall>r \<in> set (notes_table ?d1). note_id r \<noteq> 0"
    using f(3) by (simp add: do_save_note_def on_text_modified_keeps)
  have "notes_table (save_note ?d1 (Some u) later) =
      update_note_in_db (notes_table ?d1) 0 u
        (tk_get (text_area ?d1) 0 (end_index (text_area ?d1)))
        (images_data ?d1) (formatting_data (save_formatting_data ?d1)) later"
    using nb assms(3) cur by (rule save_note_update_table)
  also have "\<dots> = notes_table ?d1"
    using no0 by (rule update_note_in_db_absent)
  finally have 3: "notes_table (do_save_note ?d1 (Some u) later) = notes_table ?d1"
    by (simp add: do_save_note_def [of ?d1] on_text_modified_keeps)
  have "status (save_note ?d1 (Some u) later) = ''Note '' @ quoted u @ '' updated successfully''"
    using nb assms(3) cur
    by (simp add: save_note_def Let_def animate_status_bar_def save_formatting_data_keeps)
  then have 4: "status (do_save_note ?d1 (Some u) later) =
      ''Note '' @ quoted u @ '' updated successfully''"
    by (simp add: do_save_note_def [of ?d1] on_text_modified_keeps)
  note 5 = update_note_in_db_stamp [of rows nid t c imgs fmt now]
  have "get_notes_from_db rows =
      map (\<lambda>r. (note_id r, title r)) (order_by_updated_desc rows)"
    by (simp add: get_notes_from_db_def)
  moreover have "mset (order_by_updated_desc rows) = mset rows"
    by (simp add: order_by_updated_desc_def)
  ultimately have 6: "\<exists>rs. get_notes_from_db rows = map (\<lambda>r. (note_id r, title r)) rs \<and>
         mset rs = mset rows \<and>
         sorted_wrt (\<lambda>a b. updated_at b \<le> updated_at a) rs"
    using order_by_updated_desc_sorted by blast
  from 1 2 3 4 5 6 show ?thesis by (intro conjI)
qed

theorem save_after_first_save_stamps_no_row_witness:
  "map (\<lambda>r. (note_id r, content r, updated_at r))
     (notes_table (do_save_note (do_save_note (user_insert fresh_app 0 ''hi'') (Some ''t'') 5)
        (Some ''t'') 9)) = [(1, ''hi'' @ [newline], 5)] \<and>
   status (do_save_note (do_save_note (user_insert fresh_app 0 ''hi'') (Some ''t'') 5)
     (Some ''t'') 9) = ''Note '' @ quoted ''t'' @ '' updated successfully''"
proof -
  let ?s = "user_insert fresh_app 0 ''hi''"
  have a: "strip (tk_get (text_area ?s) 0 (end_index (text_area ?s))) \<noteq> []"
    by code_simp
  have b: "current_note_id ?s = None" "active_tab ?s = None" "notes_table ?s = []"
    by code_simp+
  have c: "\<forall>r \<in> set (notes_table ?s). 0 < note_id r" by (simp add: b)
  have d: "''t'' \<noteq> []" by simp
  have e: "map (\<lambda>r. (note_id r, content r, updated_at r))
      (notes_table (do_save_note ?s (Some ''t'') 5)) = [(1, ''hi'' @ [newline], 5)]"
    by code_simp
  from save_after_first_save_stamps_no_row [OF a d d b(1) b(2) c, of 5 9]
  have "notes_table (do_save_note (do_save_note ?s (Some ''t'') 5) (Some ''t'') 9) =
      notes_table (do_save_note ?s (Some ''t'') 5) \<and>
    status (do_save_note (do_save_note ?s (Some ''t'') 5) (Some ''t'') 9) =
      ''Note '' @ quoted ''t'' @ '' updated successfully''"
    by blast
  with e show ?thesis by simp
qed

section \<open>Saving a note and opening it again\<close>

text \<open>
  The name written for an index is read back as the same index in the same text, and in
  every text that continues it.
\<close>

lemma offset_from_Suc: "offset_from cs l c (Suc k) = Suc (offset_from cs l c k)"
  by (induction cs l c k rule: offset_from.induct) simp_all

lemma takeWhile_snoc_stop: "\<not> P x \<Longrightarrow> takeWhile P (ys @ [x]) = takeWhile P ys"
  by (induction ys) simp_all

lemma takeWhile_snoc_all:
  "P x \<Longrightarrow> takeWhile P (ys @ [x]) = (if list_all P ys then ys @ [x] else takeWhile P ys)"
  by (induction ys) simp_all

lemma no_line_end_all:
  "filter is_line_end ys = [] \<Longrightarrow> list_all (\<lambda>c. \<not> is_line_end c) (rev ys)"
  by (simp add: filter_empty_conv list_all_iff)

lemma some_line_end_not_all:
  "filter is_line_end ys \<noteq> [] \<Longrightarrow> \<not> list_all (\<lambda>c. \<not> is_line_end c) (rev ys)"
  by (simp add: filter_empty_conv list_all_iff)

lemma offset_from_index_of:
  "i \<le> length cs \<Longrightarrow>
   offset_from cs (length (filter is_line_end (take i cs)))
     (length (takeWhile (\<lambda>c. \<not> is_line_end c) (rev (take i cs)))) 0 = i"
proof (induction cs arbitrary: i)
  case Nil
  then show ?case by simp
next
  case (Cons x xs)
  show ?case
  proof (cases i)
    case 0
    then show ?thesis by simp
  next
    case (Suc j)
    with Cons.prems have j: "j \<le> length xs" by simp
    note ih = Cons.IH [OF j]
    let ?ys = "take j xs"
    show ?thesis
    proof (cases "is_line_end x")
      case True
      then show ?thesis
        using ih by (simp add: Suc takeWhile_snoc_stop offset_from_Suc)
    next
      case False
      show ?thesis
      proof (cases "filter is_line_end ?ys = []")
        case True
        from no_line_end_all [OF True]
        have a: "list_all (\<lambda>c. \<not> is_line_end c) (rev ?ys)" .
        then have t: "takeWhile (\<lambda>c. \<not> is_line_end c) (rev ?ys) = rev ?ys"
          by (simp add: list_all_iff)
        from ih True t j have "offset_from xs 0 j 0 = j" by simp
        with False True a j show ?thesis
          by (simp add: Suc takeWhile_snoc_all offset_from_Suc)
      next
        case ne: False
        from some_line_end_not_all [OF ne]
        have a: "\<not> list_all (\<lambda>c. \<not> is_line_end c) (rev ?ys)" .
        from ne obtain m where m: "length (filter is_line_end ?ys) = Suc m"
          by (cases "filter is_line_end ?ys") auto
        with False a ih show ?thesis
          by (simp add: Suc takeWhile_snoc_all offset_from_Suc)
      qed
    qed
  qed
qed

lemma offset_of_index_of: "i \<le> length cs \<Longrightarrow> offset_of cs (index_of cs i) = i"
  by (simp add: offset_of_def index_of_def offset_from_index_of)

lemma offset_of_index_of_append:
  "i \<le> length cs \<Longrightarrow> offset_of (cs @ zs) (index_of cs i) = i"
proof -
  assume i: "i \<le> length cs"
  then have "index_of cs i = index_of (cs @ zs) i" by (simp add: index_of_def)
  with i show ?thesis by (simp add: offset_of_index_of)
qed

text \<open>
  Claim C2 (the program does not do what the claim says). In the note
  \<open>styled_note\<close> the letter a is bold and stands after a picture. Saved and opened
  again, the note has lost the picture, the letter a carries no tag (the saved range
  starts at column 1, after the picture, and the saved text has the letter at column 0),
  and the text has one line end more: the text is saved with the widget's own final
  line end and inserted before that of the widget it is loaded into. The same line end
  is added to \<open>plain_note\<close>, which holds the letter a and nothing else.
\<close>

theorem reopened_note_differs:
  "cells (text_area styled_note) =
     [(Img ''0'', {}), (Ch CHR ''a'', {''bold''}), (Ch newline, {''bold''})] \<and>
   tk_get (text_area styled_note) 0 (end_index (text_area styled_note)) = ''a'' @ [newline] \<and>
   notes_table (do_save_note styled_note (Some ''t'') 7) =
     [\<lparr>note_id = 1, title = ''t'', content = ''a'' @ [newline], updated_at = 7,
       images = Json (ImgDict [(''0'', Picture (Pixels 8 6 ''A''))]),
       formatting = Json (JObj [(''bold'', JArr [JArr [JPos 1 1, JPos 2 0]]),
         (''italic'', JArr []), (''underline'', JArr []), (''font_size'', JObj []),
         (''font_family'', JObj [])])\<rparr>] \<and>
   cells (text_area reopened_note) =
     [(Ch CHR ''a'', {}), (Ch newline, {''bold''}), (Ch newline, {})] \<and>
   tk_get (text_area reopened_note) 0 (end_index (text_area reopened_note)) =
     ''a'' @ [newline, newline] \<and>
   tk_get (text_area plain_note) 0 (end_index (text_area plain_note)) = ''a'' @ [newline] \<and>
   tk_get (text_area reopened_plain_note) 0 (end_index (text_area reopened_plain_note)) =
     ''a'' @ [newline, newline]"
  by code_simp

end
